theory Spec2Isabelle
  imports
    Complex_Main
    "HOL-Library.AList"
    "HOL-Library.Multiset"
    "HOL-Library.Char_ord"
    "HOL-Library.List_Lexorder"
begin

section \<open>JavaScript values\<close>

text \<open>
  The diagram components read survey rows as plain JavaScript objects and test their
  properties dynamically (\<^verbatim>\<open>typeof\<close>, \<^verbatim>\<open>isNaN\<close>, \<^verbatim>\<open>||\<close>, \<^verbatim>\<open>!== null\<close>), so the
  values are modelled as a tagged union.  A number is a real, an infinity or NaN;
  the only arithmetic done on numbers here is comparison with small integer constants
  and counting, which IEEE doubles do exactly.
\<close>

datatype jsnum = NaN | NegInf | Fin real | PosInf

datatype jsval = JUndefined | JNull | JBool bool | JNum jsnum | JStr string

text \<open>\<^verbatim>\<open>a < b\<close> and \<^verbatim>\<open>a <= b\<close> on numbers: every comparison with NaN is false.\<close>

fun num_lt :: "jsnum \<Rightarrow> jsnum \<Rightarrow> bool" where
  "num_lt (Fin x) (Fin y) = (x < y)"
| "num_lt NegInf (Fin y) = True"
| "num_lt NegInf PosInf = True"
| "num_lt (Fin x) PosInf = True"
| "num_lt _ _ = False"

fun num_le :: "jsnum \<Rightarrow> jsnum \<Rightarrow> bool" where
  "num_le (Fin x) (Fin y) = (x \<le> y)"
| "num_le NaN _ = False"
| "num_le _ NaN = False"
| "num_le NegInf _ = True"
| "num_le _ PosInf = True"
| "num_le _ _ = False"

text \<open>\<^verbatim>\<open>typeof v === 'number'\<close>.\<close>

fun typeof_number :: "jsval \<Rightarrow> bool" where
  "typeof_number (JNum n) = True"
| "typeof_number _ = False"

text \<open>
  Truthiness: \<^verbatim>\<open>undefined\<close>, \<^verbatim>\<open>null\<close>, \<^verbatim>\<open>false\<close>, \<^verbatim>\<open>0\<close>, \<^verbatim>\<open>NaN\<close> and \<^verbatim>\<open>""\<close>
  are falsy; \<^verbatim>\<open>a || b\<close> is \<^verbatim>\<open>b\<close> when \<^verbatim>\<open>a\<close> is falsy and \<^verbatim>\<open>a\<close> otherwise.
\<close>

fun falsy :: "jsval \<Rightarrow> bool" where
  "falsy JUndefined = True"
| "falsy JNull = True"
| "falsy (JBool b) = (\<not> b)"
| "falsy (JNum n) = (n = NaN \<or> n = Fin 0)"
| "falsy (JStr s) = (s = [])"

definition js_or :: "jsval \<Rightarrow> jsval \<Rightarrow> jsval" where
  "js_or a b = (if falsy a then b else a)"

section \<open>Category normalizer (AlluvialDiagram.tsx)\<close>

definition YEARS_CATEGORIES :: "string list" where
  "YEARS_CATEGORIES = [''0-5'', ''6-10'', ''11-15'', ''16-20'', ''20+'']"

text \<open>
  \<^verbatim>\<open>getValidYearsCategory\<close>: the argument is declared a number, but the function
  re-checks it at run time, so the model takes any value.
\<close>

fun getValidYearsCategory :: "jsval \<Rightarrow> string" where
  "getValidYearsCategory (JNum years) =
     (if years = NaN \<or> num_lt years (Fin 0) then ''0-5''
      else if num_le years (Fin 5) then ''0-5''
      else if num_le years (Fin 10) then ''6-10''
      else if num_le years (Fin 15) then ''11-15''
      else if num_le years (Fin 20) then ''16-20''
      else ''20+'')"
| "getValidYearsCategory _ = ''0-5''"

section \<open>Survey rows and the test-data filter\<close>

text \<open>
  A survey row is an object; \<^verbatim>\<open>d[field]\<close> reads a property and yields
  \<^verbatim>\<open>undefined\<close> when the row has none of that name.
\<close>

type_synonym SurveyResponse = "(string \<times> jsval) list"

definition getProp :: "SurveyResponse \<Rightarrow> string \<Rightarrow> jsval" where
  "getProp d f = (case map_of d f of None \<Rightarrow> JUndefined | Some v \<Rightarrow> v)"

definition years_at_medtronic :: string where
  "years_at_medtronic = ''years_at_medtronic''"

text \<open>\<^verbatim>\<open>filteredData\<close>: rows flagged \<^verbatim>\<open>test_data\<close> are dropped unless the setting keeps them.\<close>

definition filteredData :: "SurveyResponse list \<Rightarrow> bool \<Rightarrow> SurveyResponse list" where
  "filteredData data useTestData =
     (if data = [] then []
      else if useTestData then data
      else filter (\<lambda>item. falsy (getProp item ''test_data'')) data)"

section \<open>Node labels\<close>

text \<open>
  \<^verbatim>\<open>Array.from(new Set(xs))\<close>: the values are inserted in order and a value already
  present is ignored, so the first occurrence of each value fixes its position.
\<close>

definition array_from_set :: "'a list \<Rightarrow> 'a list" where
  "array_from_set xs = fold (\<lambda>x acc. if x \<in> set acc then acc else acc @ [x]) xs []"

text \<open>The type guard \<^verbatim>\<open>typeof value === 'string' && value.length > 0\<close>.\<close>

fun nonempty_string :: "jsval \<Rightarrow> string list" where
  "nonempty_string (JStr s) = (if length s > 0 then [s] else [])"
| "nonempty_string _ = []"

definition nonempty_strings :: "jsval list \<Rightarrow> string list" where
  "nonempty_strings vs = concat (map nonempty_string vs)"

text \<open>The bucket of a row: \<^verbatim>\<open>getValidYearsCategory(d.years_at_medtronic || 0)\<close>.\<close>

definition validYearsOf :: "SurveyResponse \<Rightarrow> string" where
  "validYearsOf d = getValidYearsCategory (js_or (getProp d years_at_medtronic) (JNum (Fin 0)))"

definition sources :: "SurveyResponse list \<Rightarrow> string \<Rightarrow> string list" where
  "sources fd currentSource =
     (if fd = [] then []
      else if currentSource = years_at_medtronic then
        filter (\<lambda>cat. list_ex (\<lambda>d. validYearsOf d = cat) fd) YEARS_CATEGORIES
      else nonempty_strings (array_from_set (map (\<lambda>d. getProp d currentSource) fd)))"

text \<open>
  \<^verbatim>\<open>targets\<close> repeats the test on the field name inside its second branch, where it
  is always false, and sorts the labels with the default \<^verbatim>\<open>sort()\<close>, which orders
  strings by their code units.
\<close>

definition targets :: "SurveyResponse list \<Rightarrow> string \<Rightarrow> string list" where
  "targets fd currentTarget =
     (if fd = [] then []
      else if currentTarget = years_at_medtronic then
        filter (\<lambda>cat. list_ex (\<lambda>d. validYearsOf d = cat) fd) YEARS_CATEGORIES
      else sort (nonempty_strings (array_from_set
             (map (\<lambda>d. if currentTarget = years_at_medtronic then JStr (validYearsOf d)
                        else getProp d currentTarget) fd))))"

text \<open>\<^verbatim>\<open>indexOf\<close> is -1 for an absent element.\<close>

fun indexOf :: "'a list \<Rightarrow> 'a \<Rightarrow> int" where
  "indexOf [] x = - 1"
| "indexOf (y # ys) x =
     (if y = x then 0 else (let i = indexOf ys x in if i < 0 then - 1 else i + 1))"

text \<open>
  The order of the nodes of one side: bucket order for the years field (a stable sort
  on the position in \<^verbatim>\<open>YEARS_CATEGORIES\<close>), the default string sort otherwise.
\<close>

definition sortNodes :: "string \<Rightarrow> string list \<Rightarrow> string list" where
  "sortNodes field labels =
     (if field = years_at_medtronic then sort_key (indexOf YEARS_CATEGORIES) labels
      else sort labels)"

section \<open>Flow aggregation of the alluvial diagram\<close>

record Node =
  node_id :: string
  name :: string
  category :: string

record Link =
  source :: string
  target :: string
  val :: real
  isDummy :: bool

text \<open>
  The links live in a \<^verbatim>\<open>Map\<close> keyed by a string; a \<^verbatim>\<open>Map\<close> keeps its keys in
  insertion order and \<^verbatim>\<open>set\<close> on a present key replaces the value in place, which is
  what \<^const>\<open>AList.update\<close> does on an association list.
\<close>

type_synonym linksMap = "(string \<times> Link) list"

definition nodeId :: "string \<Rightarrow> string \<Rightarrow> string" where
  "nodeId field label = field @ '':'' @ label"

text \<open>The arrow U+2192 that separates the two node ids in a key, as its UTF-8 bytes.\<close>

definition arrow :: string where
  "arrow = [CHR 0xE2, CHR 0x86, CHR 0x92]"

definition linkKey :: "string \<Rightarrow> string \<Rightarrow> string" where
  "linkKey sourceId targetId = sourceId @ arrow @ targetId"

text \<open>
  The accessors of the render effect call \<^verbatim>\<open>getYearsCategory\<close> of
  \<^verbatim>\<open>shared/colorUtils\<close>, which is not among the sources; it is the parameter
  \<open>getYearsCategory\<close> of everything below.
\<close>

definition sourceAccessor :: "(jsval \<Rightarrow> jsval) \<Rightarrow> string \<Rightarrow> SurveyResponse \<Rightarrow> jsval" where
  "sourceAccessor getYearsCategory currentSource d =
     (if currentSource = years_at_medtronic
      then getYearsCategory (js_or (getProp d years_at_medtronic) (JNum (Fin 0)))
      else getProp d currentSource)"

definition targetAccessor :: "(jsval \<Rightarrow> jsval) \<Rightarrow> string \<Rightarrow> SurveyResponse \<Rightarrow> jsval" where
  "targetAccessor getYearsCategory currentTarget d =
     (if currentTarget = years_at_medtronic
      then getYearsCategory (js_or (getProp d years_at_medtronic) (JNum (Fin 0)))
      else getProp d currentTarget)"

definition validData :: "SurveyResponse list \<Rightarrow> string \<Rightarrow> string \<Rightarrow> SurveyResponse list" where
  "validData fd currentSource currentTarget =
     filter (\<lambda>d. (currentSource \<noteq> years_at_medtronic \<or> getProp d years_at_medtronic \<noteq> JNull) \<and>
                 (currentTarget \<noteq> years_at_medtronic \<or> getProp d years_at_medtronic \<noteq> JNull)) fd"

text \<open>Step 1: one dummy link for every pair of a source node and a target node.\<close>

definition dummyLink :: "string \<Rightarrow> string \<Rightarrow> string \<Rightarrow> string \<Rightarrow> Link" where
  "dummyLink currentSource currentTarget s t =
     \<lparr>source = nodeId currentSource s, target = nodeId currentTarget t, val = 0, isDummy = True\<rparr>"

definition crossLinks :: "string \<Rightarrow> string \<Rightarrow> string list \<Rightarrow> string list \<Rightarrow> linksMap" where
  "crossLinks currentSource currentTarget sortedSources sortedTargets =
     fold (\<lambda>s. fold (\<lambda>t. AList.update
                 (linkKey (nodeId currentSource s) (nodeId currentTarget t))
                 (dummyLink currentSource currentTarget s t)) sortedTargets)
       sortedSources []"

text \<open>
  \<^verbatim>\<open>labels.includes(v)\<close> on an array of strings: only an equal string is found.
\<close>

fun js_includes :: "string list \<Rightarrow> jsval \<Rightarrow> bool" where
  "js_includes labels (JStr s) = (s \<in> set labels)"
| "js_includes labels _ = False"

text \<open>
  Step 2, for one row.  A row whose source or target value is not among the node
  labels returns early; past that test both values are strings, and the template
  strings that build the ids concatenate them.
\<close>

definition fillLink ::
  "(jsval \<Rightarrow> jsval) \<Rightarrow> string \<Rightarrow> string \<Rightarrow> string list \<Rightarrow> string list \<Rightarrow>
   SurveyResponse \<Rightarrow> linksMap \<Rightarrow> linksMap" where
  "fillLink getYearsCategory currentSource currentTarget sortedSources sortedTargets d m =
     (let src = sourceAccessor getYearsCategory currentSource d;
          tgt = targetAccessor getYearsCategory currentTarget d
      in if \<not> js_includes sortedSources src \<or> \<not> js_includes sortedTargets tgt then m
         else
           (case (src, tgt) of
              (JStr s, JStr t) \<Rightarrow>
                (let sourceId = nodeId currentSource s;
                     targetId = nodeId currentTarget t;
                     key = linkKey sourceId targetId
                 in case map_of m key of
                      None \<Rightarrow> AList.update key
                        \<lparr>source = sourceId, target = targetId, val = 1, isDummy = False\<rparr> m
                    | Some link \<Rightarrow> AList.update key
                        (link\<lparr>val := val link + 1, isDummy := False\<rparr>) m)
            | _ \<Rightarrow> m))"

text \<open>Step 3: a link that is still a dummy gets the weight 0.0001.\<close>

definition markDummies :: "linksMap \<Rightarrow> linksMap" where
  "markDummies m = map (\<lambda>(key, link). (key, if isDummy link then link\<lparr>val := 0.0001\<rparr> else link)) m"

definition sortedSources :: "SurveyResponse list \<Rightarrow> string \<Rightarrow> string list" where
  "sortedSources fd currentSource = sortNodes currentSource (sources fd currentSource)"

definition sortedTargets :: "SurveyResponse list \<Rightarrow> string \<Rightarrow> string list" where
  "sortedTargets fd currentTarget = sortNodes currentTarget (targets fd currentTarget)"

definition alluvialNodes :: "SurveyResponse list \<Rightarrow> string \<Rightarrow> string \<Rightarrow> Node list" where
  "alluvialNodes fd currentSource currentTarget =
     map (\<lambda>n. \<lparr>node_id = nodeId currentSource n, name = n, category = currentSource\<rparr>)
       (sortedSources fd currentSource) @
     map (\<lambda>n. \<lparr>node_id = nodeId currentTarget n, name = n, category = currentTarget\<rparr>)
       (sortedTargets fd currentTarget)"

definition alluvialLinks ::
  "(jsval \<Rightarrow> jsval) \<Rightarrow> SurveyResponse list \<Rightarrow> string \<Rightarrow> string \<Rightarrow> Link list" where
  "alluvialLinks getYearsCategory fd currentSource currentTarget =
     (let ss = sortedSources fd currentSource;
          ts = sortedTargets fd currentTarget
      in map snd (markDummies
           (fold (fillLink getYearsCategory currentSource currentTarget ss ts)
              (validData fd currentSource currentTarget)
              (crossLinks currentSource currentTarget ss ts))))"

text \<open>
  The render effect does nothing when there is no row left after the test-data filter;
  otherwise it hands these nodes and links to the layout.
\<close>

definition aggregate ::
  "(jsval \<Rightarrow> jsval) \<Rightarrow> SurveyResponse list \<Rightarrow> bool \<Rightarrow> string \<Rightarrow> string \<Rightarrow>
   (Node list \<times> Link list) option" where
  "aggregate getYearsCategory data useTestData currentSource currentTarget =
     (let fd = filteredData data useTestData
      in if fd = [] then None
         else Some (alluvialNodes fd currentSource currentTarget,
                    alluvialLinks getYearsCategory fd currentSource currentTarget))"

section \<open>Chart sizing and the layout call\<close>

text \<open>
  The component sizes the chart from the container, the number of nodes on the larger
  side and the widest label, and hands nodes and links to the generator of the d3-sankey
  library, configured with the node padding and the extent.  The generator and the text
  measurement of the browser are parameters.  Numbers are reals here.
\<close>

definition chartSizing ::
  "(string \<Rightarrow> real \<Rightarrow> real) \<Rightarrow> real \<Rightarrow> real \<Rightarrow> string list \<Rightarrow> string list \<Rightarrow> real \<times> real \<times> real" where
  "chartSizing measureTextWidth containerWidth containerHeight srcs tgts =
     (let nodeCount = max (max (length srcs) (length tgts)) 1;
          availableHeight0 = max 180 (min (containerHeight - 40) 700);
          availableHeight1 = (if nodeCount \<le> 3 then max 180 (min 320 availableHeight0)
                              else availableHeight0);
          availableHeight = (if nodeCount \<ge> 10 then min 700 (max availableHeight1 500)
                             else availableHeight1);
          maxNodeHeight = (if nodeCount \<le> 3 then 36 else 48);
          nodeHeight0 = of_int \<lfloor>(availableHeight - (real nodeCount + 1) * 8) / real nodeCount\<rfloor>;
          nodeHeight = max 16 (min nodeHeight0 maxNodeHeight);
          nodePadding = max ((availableHeight - real nodeCount * nodeHeight) / (real nodeCount + 1)) 8;
          labelFontSize = max 12 (min 28 (of_int \<lfloor>nodeHeight * 0.5\<rfloor>));
          labelWidths = map (\<lambda>label. measureTextWidth label labelFontSize) (srcs @ tgts);
          maxLabelWidth = fold max labelWidths 80;
          marginSide = maxLabelWidth + 24;
          chartWidth0 = max 320 (min (containerWidth - marginSide - marginSide) 1400);
          chartWidth1 = (if nodeCount \<le> 3 then max 320 (min chartWidth0 480) else chartWidth0);
          chartWidth = (if nodeCount \<ge> 10 then min 1400 (max chartWidth1 900) else chartWidth1)
      in (nodePadding, chartWidth, availableHeight))"

definition renderLayout ::
  "(real \<Rightarrow> real \<Rightarrow> real \<Rightarrow> Node list \<Rightarrow> Link list \<Rightarrow> 'frame) \<Rightarrow>
   (string \<Rightarrow> real \<Rightarrow> real) \<Rightarrow> real \<Rightarrow> real \<Rightarrow>
   (jsval \<Rightarrow> jsval) \<Rightarrow> SurveyResponse list \<Rightarrow> bool \<Rightarrow> string \<Rightarrow> string \<Rightarrow> 'frame option" where
  "renderLayout sankeyGenerator measureTextWidth containerWidth containerHeight
     getYearsCategory data useTestData cs ct =
     (let fd = filteredData data useTestData;
          (nodePadding, chartWidth, chartHeight) =
            chartSizing measureTextWidth containerWidth containerHeight (sources fd cs) (targets fd ct)
      in map_option (\<lambda>(nodes, links). sankeyGenerator nodePadding chartWidth chartHeight nodes links)
           (aggregate getYearsCategory data useTestData cs ct))"

section \<open>Concrete inputs\<close>

text \<open>
  Field names, the label catalogs that \<^verbatim>\<open>ChordDiagram.tsx\<close> declares in
  \<^verbatim>\<open>allCategories\<close>, and the rows used to evaluate the aggregation.  \<open>yearsLabel\<close>
  is the bucketing of \<^verbatim>\<open>getValidYearsCategory\<close>, used wherever an evaluation needs
  a concrete function in the place of the \<^verbatim>\<open>getYearsCategory\<close> parameter.
\<close>

definition learning_style :: string where
  "learning_style = ''learning_style''"

definition motivation :: string where
  "motivation = ''motivation''"

definition learningStyleCatalog :: "string list" where
  "learningStyleCatalog = [''visual'', ''auditory'', ''kinesthetic'', ''reading_writing'']"

definition motivationCatalog :: "string list" where
  "motivationCatalog = [''impact'', ''growth'', ''recognition'', ''autonomy'', ''purpose'']"

definition yearsStyleRow :: "jsval \<Rightarrow> jsval \<Rightarrow> SurveyResponse" where
  "yearsStyleRow years style = [(''years_at_medtronic'', years), (''learning_style'', style)]"

definition styleMotivationRow :: "jsval \<Rightarrow> jsval \<Rightarrow> SurveyResponse" where
  "styleMotivationRow style motive = [(''learning_style'', style), (''motivation'', motive)]"

definition yearsLabel :: "jsval \<Rightarrow> jsval" where
  "yearsLabel v = JStr (getValidYearsCategory v)"

text \<open>
  A stand-in for the layout of the library that returns its input, and a text
  measurement that charges nine units a character at any font size.
\<close>

definition frameOfInput ::
  "real \<Rightarrow> real \<Rightarrow> real \<Rightarrow> Node list \<Rightarrow> Link list \<Rightarrow>
   real \<times> real \<times> real \<times> Node list \<times> Link list" where
  "frameOfInput nodePadding chartWidth chartHeight nodes links =
     (nodePadding, chartWidth, chartHeight, nodes, links)"

definition labelLength :: "string \<Rightarrow> real \<Rightarrow> real" where
  "labelLength label fontSize = 9 * real (length label)"

definition threeRows :: "SurveyResponse list" where
  "threeRows =
     [styleMotivationRow (JStr ''visual'') (JStr ''impact''),
      styleMotivationRow (JStr ''auditory'') (JStr ''growth''),
      styleMotivationRow (JStr ''auditory'') JNull]"

text \<open>
  One row with a null years value, and two rows whose labels hold the separator of the
  map keys.
\<close>

definition nullYearsRows :: "SurveyResponse list" where
  "nullYearsRows = [yearsStyleRow JNull (JStr ''visual'')]"

definition collidingRows :: "SurveyResponse list" where
  "collidingRows =
     [styleMotivationRow (JStr ''a'') (JStr (''b'' @ arrow @ ''motivation:c'')),
      styleMotivationRow (JStr (''a'' @ arrow @ ''motivation:b'')) (JStr ''c'')]"

definition scenario :: "SurveyResponse list" where
  "scenario =
     [yearsStyleRow (JNum (Fin 2)) (JStr ''visual''),
      yearsStyleRow (JNum (Fin 2)) (JStr ''visual''),
      yearsStyleRow (JNum (Fin 7)) (JStr ''auditory''),
      yearsStyleRow (JNum (Fin 7)) (JStr ''auditory''),
      yearsStyleRow (JNum (Fin 7)) (JStr ''visual''),
      yearsStyleRow (JNum (Fin 12)) (JStr ''visual''),
      yearsStyleRow (JNum (Fin 22)) (JStr ''kinesthetic''),
      yearsStyleRow (JNum (Fin 22)) (JStr ''visual''),
      yearsStyleRow (JNum (Fin 22)) (JStr ''visual''),
      yearsStyleRow (JNum (Fin 22)) (JStr ''auditory'')]"

section \<open>Auxiliary notions for the proofs\<close>

text \<open>
  The key under which the fill step files a row (none when the row returns early), the
  number of rows filed under a key, and the effect of that many increments on a link.
\<close>

definition hitKey ::
  "(jsval \<Rightarrow> jsval) \<Rightarrow> string \<Rightarrow> string \<Rightarrow> string list \<Rightarrow> string list \<Rightarrow> SurveyResponse \<Rightarrow> string option" where
  "hitKey g cs ct ss ts d =
     (case (sourceAccessor g cs d, targetAccessor g ct d) of
        (JStr s, JStr t) \<Rightarrow>
          if s \<in> set ss \<and> t \<in> set ts then Some (linkKey (nodeId cs s) (nodeId ct t)) else None
      | _ \<Rightarrow> None)"

definition bumpN :: "nat \<Rightarrow> Link \<Rightarrow> Link" where
  "bumpN n l = (if n = 0 then l else l\<lparr>val := val l + of_nat n, isDummy := False\<rparr>)"

definition hits :: "(SurveyResponse \<Rightarrow> string option) \<Rightarrow> SurveyResponse list \<Rightarrow> string \<Rightarrow> nat" where
  "hits h ds k = length (filter (\<lambda>d. h d = Some k) ds)"

definition keyOf :: "string \<Rightarrow> string \<Rightarrow> string \<times> string \<Rightarrow> string" where
  "keyOf cs ct p = linkKey (nodeId cs (fst p)) (nodeId ct (snd p))"

definition keysDistinct :: "string \<Rightarrow> string \<Rightarrow> string list \<Rightarrow> string list \<Rightarrow> bool" where
  "keysDistinct cs ct ss ts = distinct (map (keyOf cs ct) (List.product ss ts))"

definition realValue :: "Link \<Rightarrow> real" where
  "realValue l = (if isDummy l then 0 else val l)"

definition matchCount ::
  "(jsval \<Rightarrow> jsval) \<Rightarrow> string \<Rightarrow> string \<Rightarrow> SurveyResponse list \<Rightarrow> string \<Rightarrow> string \<Rightarrow> nat" where
  "matchCount g cs ct ds s t =
     length (filter (\<lambda>d. sourceAccessor g cs d = JStr s \<and> targetAccessor g ct d = JStr t) ds)"

definition finalLink :: "string \<Rightarrow> string \<Rightarrow> string \<Rightarrow> string \<Rightarrow> nat \<Rightarrow> Link" where
  "finalLink cs ct s t n =
     \<lparr>source = nodeId cs s, target = nodeId ct t,
      val = (if n = 0 then 0.0001 else of_nat n), isDummy = (n = 0)\<rparr>"

definition counted ::
  "(jsval \<Rightarrow> jsval) \<Rightarrow> string \<Rightarrow> string \<Rightarrow> string list \<Rightarrow> string list \<Rightarrow> SurveyResponse \<Rightarrow> bool" where
  "counted g cs ct ss ts d =
     (js_includes ss (sourceAccessor g cs d) \<and> js_includes ts (targetAccessor g ct d))"

section \<open>Highlight sequencer of the alluvial diagram\<close>

text \<open>
  The sequencer is a chain of \<^verbatim>\<open>setTimeout\<close> callbacks over the mutable
  \<^verbatim>\<open>animationRef\<close>.  The state below is that ref (without \<^verbatim>\<open>pausedAt\<close>, a
  wall-clock reading that nothing reads back), the React state the callbacks write, and
  the browser's queue of pending timers, each a handle and a callback.  Handles are
  positive and never reused.  Time is not modelled: any pending timer may be fired.
\<close>

datatype phase = Full | Highlighting | Transitioning

record AnimationState =
  timer :: "nat option"
  running :: bool
  currentSourceIndex :: nat
  currentTargetIndex :: nat
  isPaused :: bool
  resumeFrom :: "string option"
  cycleCount :: nat

text \<open>What the \<^verbatim>\<open>animate\<close> closure of one render captures.\<close>

record animateEnv =
  closureSources :: "string list"
  closureDataLength :: nat

text \<open>
  The callbacks the code passes to \<^verbatim>\<open>setTimeout\<close>: the step to the next source
  node, the switch to the next target field (which captures \<^verbatim>\<open>targetOptions\<close>), the
  switch to the next source field, the restart scheduled inside the two switches, and
  the restart scheduled by \<^verbatim>\<open>resumeAnimation\<close>.
\<close>

datatype callback =
    StepTimer animateEnv
  | NextTargetTimer animateEnv "string list"
  | NextSourceTimer animateEnv
  | RestartTimer animateEnv
  | ResumeTimer animateEnv

record Sequencer =
  anim :: AnimationState
  currentSource :: string
  currentTarget :: jsval
  lastCategoryChange :: "string \<times> jsval"
  hoveredSourceIndex :: "nat option"
  animationPhase :: phase
  isInFullOpacityState :: bool
  pending :: "(nat \<times> callback) list"
  nextHandle :: nat

definition availableFields :: "(string \<times> string) list" where
  "availableFields =
     [(''years_at_medtronic'', ''Years at Medtronic''),
      (''learning_style'', ''Learning Style''),
      (''shaped_by'', ''Shaped By''),
      (''peak_performance'', ''Peak Performance''),
      (''motivation'', ''Motivation'')]"

text \<open>
  \<^verbatim>\<open>setTimeout\<close> queues a callback under a fresh handle; \<^verbatim>\<open>clearTimeout\<close> removes
  a handle from the queue and does nothing for a handle that is not there.
\<close>

definition setTimeout :: "callback \<Rightarrow> Sequencer \<Rightarrow> nat \<times> Sequencer" where
  "setTimeout cb st =
     (nextHandle st, st\<lparr>pending := pending st @ [(nextHandle st, cb)], nextHandle := Suc (nextHandle st)\<rparr>)"

definition clearTimeout :: "nat \<Rightarrow> Sequencer \<Rightarrow> Sequencer" where
  "clearTimeout h st = st\<lparr>pending := filter (\<lambda>p. fst p \<noteq> h) (pending st)\<rparr>"

text \<open>
  \<^verbatim>\<open>if (animationRef.current.timer) { clearTimeout(...); timer = null }\<close>, and
  \<^verbatim>\<open>animationRef.current.timer = setTimeout(...)\<close>.
\<close>

definition clearTrackedTimer :: "Sequencer \<Rightarrow> Sequencer" where
  "clearTrackedTimer st =
     (case timer (anim st) of
        None \<Rightarrow> st
      | Some h \<Rightarrow> (clearTimeout h st)\<lparr>anim := (anim st)\<lparr>timer := None\<rparr>\<rparr>)"

definition trackTimeout :: "callback \<Rightarrow> Sequencer \<Rightarrow> Sequencer" where
  "trackTimeout cb st =
     (let (h, st') = setTimeout cb st in st'\<lparr>anim := (anim st')\<lparr>timer := Some h\<rparr>\<rparr>)"

text \<open>An array read; out of range it yields \<^verbatim>\<open>undefined\<close>.\<close>

definition arrayAt :: "string list \<Rightarrow> nat \<Rightarrow> jsval" where
  "arrayAt xs i = (if i < length xs then JStr (xs ! i) else JUndefined)"

text \<open>
  The fields offered as targets for a source field, and the source field that follows
  one in the rotation (the one after it in \<^verbatim>\<open>availableFields\<close>, wrapping around).
\<close>

definition targetOptionsFor :: "string \<Rightarrow> string list" where
  "targetOptionsFor src = map fst (filter (\<lambda>f. fst f \<noteq> src) availableFields)"

definition nextSourceOf :: "string \<Rightarrow> string" where
  "nextSourceOf src =
     (let sourceOptions = map fst availableFields;
          currentSourceIndex' = indexOf sourceOptions src;
          nextSourceIndex = nat ((currentSourceIndex' + 1) mod int (length sourceOptions))
      in sourceOptions ! nextSourceIndex)"

text \<open>
  \<^verbatim>\<open>animate\<close>.  The timers of the second and third branch are set after clearing the
  tracked one; the timer of the first branch is set without clearing.
\<close>

definition animate :: "animateEnv \<Rightarrow> Sequencer \<Rightarrow> Sequencer" where
  "animate env st =
     (if isPaused (anim st) then st
      else if \<not> running (anim st) \<or> closureDataLength env = 0 then st
      else
        (let a1 = (if cycleCount (anim st) > 1000
                   then (anim st)\<lparr>cycleCount := 0, currentSourceIndex := 0, currentTargetIndex := 0\<rparr>
                   else anim st);
             a2 = a1\<lparr>cycleCount := cycleCount a1 + 1\<rparr>;
             st1 = st\<lparr>anim := a2, animationPhase := Highlighting, isInFullOpacityState := False,
                      hoveredSourceIndex := Some (currentSourceIndex a2)\<rparr>;
             targetOptions = targetOptionsFor (currentSource st)
         in if int (currentSourceIndex a2) < int (length (closureSources env)) - 1
            then trackTimeout (StepTimer env) st1
            else if int (currentTargetIndex a2) < int (length targetOptions) - 1
            then trackTimeout (NextTargetTimer env targetOptions) (clearTrackedTimer st1)
            else trackTimeout (NextSourceTimer env) (clearTrackedTimer st1)))"

text \<open>
  The bodies of the callbacks.  The restart that a switch schedules is not stored in
  \<^verbatim>\<open>animationRef.current.timer\<close>: its handle is dropped.
\<close>

fun runCallback :: "callback \<Rightarrow> Sequencer \<Rightarrow> Sequencer" where
  "runCallback (StepTimer env) st =
     (if \<not> running (anim st) \<or> isPaused (anim st) then st
      else animate env (st\<lparr>anim := (anim st)\<lparr>currentSourceIndex := currentSourceIndex (anim st) + 1\<rparr>\<rparr>))"
| "runCallback (NextTargetTimer env targetOptions) st =
     (if \<not> running (anim st) \<or> isPaused (anim st) then st
      else
        (let i = currentTargetIndex (anim st) + 1;
             nextTarget = arrayAt targetOptions i;
             st1 = st\<lparr>animationPhase := Transitioning,
                      currentTarget := nextTarget,
                      lastCategoryChange := (currentSource st, nextTarget),
                      anim := (anim st)\<lparr>currentTargetIndex := i, currentSourceIndex := 0\<rparr>\<rparr>
         in snd (setTimeout (RestartTimer env) st1)))"
| "runCallback (NextSourceTimer env) st =
     (if \<not> running (anim st) \<or> isPaused (anim st) then st
      else
        (let nextSource = nextSourceOf (currentSource st);
             newTargetOptions = targetOptionsFor nextSource;
             firstTarget = arrayAt newTargetOptions 0;
             st1 = st\<lparr>animationPhase := Transitioning,
                      currentSource := nextSource,
                      currentTarget := firstTarget,
                      lastCategoryChange := (nextSource, firstTarget),
                      anim := (anim st)\<lparr>currentSourceIndex := 0, currentTargetIndex := 0\<rparr>\<rparr>
         in snd (setTimeout (RestartTimer env) st1)))"
| "runCallback (RestartTimer env) st =
     (if running (anim st) \<and> \<not> isPaused (anim st) then animate env st else st)"
| "runCallback (ResumeTimer env) st =
     (if running (anim st) \<and> \<not> isPaused (anim st) then animate env st else st)"

text \<open>A pending timer fires: it leaves the queue and its callback runs.\<close>

definition fire :: "nat \<Rightarrow> Sequencer \<Rightarrow> Sequencer" where
  "fire h st =
     (case map_of (pending st) h of
        None \<Rightarrow> st
      | Some cb \<Rightarrow> runCallback cb (clearTimeout h st))"

text \<open>
  The animation effect.  Its first branch (autoplay off) and its cleanup function do the
  same: clear the tracked timer, reset \<^verbatim>\<open>running\<close>, show the full view.
\<close>

definition stopSequencer :: "Sequencer \<Rightarrow> Sequencer" where
  "stopSequencer st =
     (let st1 = clearTrackedTimer st
      in st1\<lparr>anim := (anim st1)\<lparr>running := False\<rparr>,
             animationPhase := Full, isInFullOpacityState := True\<rparr>)"

definition startSequencer :: "animateEnv \<Rightarrow> Sequencer \<Rightarrow> Sequencer" where
  "startSequencer env st =
     (let st1 = (if running (anim st)
                 then (let s = clearTrackedTimer st in s\<lparr>anim := (anim s)\<lparr>running := False\<rparr>\<rparr>)
                 else st);
          st2 = st1\<lparr>anim := (anim st1)\<lparr>running := True, currentSourceIndex := 0,
                                        currentTargetIndex := 0, cycleCount := 0\<rparr>\<rparr>
      in animate env st2)"

definition animationEffect :: "bool \<Rightarrow> bool \<Rightarrow> bool \<Rightarrow> animateEnv \<Rightarrow> Sequencer \<Rightarrow> Sequencer" where
  "animationEffect autoPlay isAutoPlayEnabled svgReady env st =
     (if \<not> autoPlay \<or> \<not> isAutoPlayEnabled then stopSequencer st
      else if closureDataLength env = 0 then st
      else if \<not> svgReady then st
      else startSequencer env st)"

definition pauseAnimation :: "Sequencer \<Rightarrow> Sequencer" where
  "pauseAnimation st =
     (if running (anim st) \<and> \<not> isPaused (anim st)
      then clearTrackedTimer (st\<lparr>anim := (anim st)\<lparr>isPaused := True\<rparr>\<rparr>)
      else st)"

definition resumeAnimation :: "animateEnv \<Rightarrow> Sequencer \<Rightarrow> Sequencer" where
  "resumeAnimation env st =
     (if running (anim st) \<and> isPaused (anim st)
      then snd (setTimeout (ResumeTimer env)
             (st\<lparr>anim := (anim st)\<lparr>isPaused := False, resumeFrom := Some ''source''\<rparr>\<rparr>))
      else st)"

text \<open>
  The expiry of the tracked timer, and the expiry of the timer queued last (the restart
  of \<^verbatim>\<open>resumeAnimation\<close> right after it was called).
\<close>

definition fireTracked :: "Sequencer \<Rightarrow> Sequencer" where
  "fireTracked st = (case timer (anim st) of None \<Rightarrow> st | Some h \<Rightarrow> fire h st)"

definition fireLast :: "Sequencer \<Rightarrow> Sequencer" where
  "fireLast st = (if pending st = [] then st else fire (fst (last (pending st))) st)"

text \<open>The component as mounted, and closures over two and three source nodes.\<close>

definition initialSequencer :: Sequencer where
  "initialSequencer =
     \<lparr>anim = \<lparr>timer = None, running = False, currentSourceIndex = 0, currentTargetIndex = 0,
              isPaused = False, resumeFrom = None, cycleCount = 0\<rparr>,
      currentSource = ''years_at_medtronic'',
      currentTarget = JStr ''learning_style'',
      lastCategoryChange = (''years_at_medtronic'', JStr ''learning_style''),
      hoveredSourceIndex = None,
      animationPhase = Full,
      isInFullOpacityState = False,
      pending = [],
      nextHandle = 1\<rparr>"

definition twoSources :: animateEnv where
  "twoSources = \<lparr>closureSources = [''0-5'', ''6-10''], closureDataLength = 2\<rparr>"

definition threeSources :: animateEnv where
  "threeSources = \<lparr>closureSources = [''0-5'', ''6-10'', ''20+''], closureDataLength = 5\<rparr>"

text \<open>
  The state of a run over two source nodes after its two timers have fired: the second
  is the switch to the next target field, which queues the untracked restart.
\<close>

definition afterNextTarget :: Sequencer where
  "afterNextTarget = fire 2 (fire 1 (startSequencer twoSources initialSequencer))"

text \<open>
  Every queued handle is below the next one to be handed out; and the sequencer is at
  step \<open>k\<close> of a cycling phase having called \<^verbatim>\<open>animate\<close> \<open>c\<close> times.
\<close>

definition handlesFresh :: "Sequencer \<Rightarrow> bool" where
  "handlesFresh st = list_all (\<lambda>p. fst p < nextHandle st) (pending st)"

definition cycling :: "animateEnv \<Rightarrow> nat \<Rightarrow> nat \<Rightarrow> Sequencer \<Rightarrow> bool" where
  "cycling env k c st \<longleftrightarrow>
     handlesFresh st \<and> running (anim st) \<and> \<not> isPaused (anim st) \<and>
     currentSourceIndex (anim st) = k \<and> hoveredSourceIndex st = Some k \<and>
     cycleCount (anim st) = c \<and>
     (k + 1 < length (closureSources env) \<longrightarrow>
        (\<exists>h. timer (anim st) = Some h \<and> map_of (pending st) h = Some (StepTimer env)))"

text \<open>
  The delays of the timers, from \<^verbatim>\<open>animationDurations\<close>; a speed of 0 is falsy and
  stands for 3000.  A step timer waits \<^verbatim>\<open>stepDuration + pauseDuration\<close>, a switch
  \<^verbatim>\<open>categoryPauseDuration\<close>, the restart inside the switch of the target field the same,
  and the restart inside the switch of the source field one and a half times that.
\<close>

record Durations =
  stepDuration :: real
  pauseDuration :: real
  categoryPauseDuration :: real

definition animationDurations :: "real \<Rightarrow> bool \<Rightarrow> Durations" where
  "animationDurations autoPlaySpeed prefersReducedMotion =
     (let baseSpeed = (if autoPlaySpeed = 0 then 3000 else autoPlaySpeed);
          reductionFactor = (if prefersReducedMotion then 0.5 else 1)
      in \<lparr>stepDuration = max 800 (baseSpeed / 8 * reductionFactor),
          pauseDuration = max 400 (baseSpeed / 12 * reductionFactor),
          categoryPauseDuration = max 1500 (baseSpeed / 3 * reductionFactor)\<rparr>)"

text \<open>
  A run of the mounted component with autoplay on.  The closure of a render holds the
  labels of the source nodes of the current source field (\<^verbatim>\<open>animate\<close> reads only how
  many there are) and the number of rows.  The animation effect depends on
  \<^verbatim>\<open>currentSource\<close>: when a callback has changed it, React runs the cleanup of the effect
  and then the effect again, with the closure of the new render.  In the five rows the
  years field has two source nodes and the learning style three.
\<close>

definition switchRows :: "SurveyResponse list" where
  "switchRows =
     [yearsStyleRow (JNum (Fin 2)) (JStr ''visual''),
      yearsStyleRow (JNum (Fin 2)) (JStr ''auditory''),
      yearsStyleRow (JNum (Fin 7)) (JStr ''kinesthetic''),
      yearsStyleRow (JNum (Fin 7)) (JStr ''visual''),
      yearsStyleRow (JNum (Fin 7)) (JStr ''auditory'')]"

definition closureOf :: "SurveyResponse list \<Rightarrow> string \<Rightarrow> animateEnv" where
  "closureOf data field =
     \<lparr>closureSources = sortedSources (filteredData data False) field,
      closureDataLength = length (filteredData data False)\<rparr>"

datatype event = TimerFires nat | EffectReruns animateEnv

fun applyEvent :: "event \<Rightarrow> Sequencer \<Rightarrow> Sequencer" where
  "applyEvent (TimerFires h) st = fire h st"
| "applyEvent (EffectReruns env) st = animationEffect True True True env (stopSequencer st)"

text \<open>The states after each event of a run.\<close>

fun history :: "event list \<Rightarrow> Sequencer \<Rightarrow> Sequencer list" where
  "history [] st = []"
| "history (e # es) st = applyEvent e st # history es (applyEvent e st)"

definition mounted :: Sequencer where
  "mounted =
     animationEffect True True True (closureOf switchRows years_at_medtronic) initialSequencer"

text \<open>
  Timers 1 to 11 fire one after the other, each the only one pending; the eleventh is
  the switch of the source field, after which the effect runs again.  Then timer 13
  (the first step of the new run), timer 12 (the restart that the switch queued) and
  the timers that follow it.
\<close>

definition switchRun :: "event list" where
  "switchRun =
     map TimerFires [1, 2, 3, 4, 5, 6, 7, 8, 9, 10, 11] @
     [EffectReruns (closureOf switchRows learning_style),
      TimerFires 13, TimerFires 12, TimerFires 15, TimerFires 16, TimerFires 17]"

section \<open>Categories of the chord diagram\<close>

text \<open>
  The chord diagram collects the categories of a side in a \<^verbatim>\<open>Set\<close>, putting
  \<^verbatim>\<open>'Unknown'\<close> for a falsy value, and totals a category by comparing it with the
  raw value of each row with \<^verbatim>\<open>===\<close>.  The arrays it works with are these
  categories sorted; the total of a category does not depend on its position.
\<close>

definition js_strict_eq :: "jsval \<Rightarrow> jsval \<Rightarrow> bool" where
  "js_strict_eq a b = (a = b \<and> a \<noteq> JNum NaN)"

definition chordCategory :: "(jsval \<Rightarrow> jsval) \<Rightarrow> string \<Rightarrow> SurveyResponse \<Rightarrow> jsval" where
  "chordCategory getYearsCategory field d =
     (if field = years_at_medtronic
      then getYearsCategory (js_or (getProp d years_at_medtronic) (JNum (Fin 0)))
      else js_or (getProp d field) (JStr ''Unknown''))"

definition chordCategories :: "(jsval \<Rightarrow> jsval) \<Rightarrow> SurveyResponse list \<Rightarrow> string \<Rightarrow> jsval list" where
  "chordCategories getYearsCategory fd field =
     array_from_set (map (chordCategory getYearsCategory field) fd)"

definition chordValue :: "(jsval \<Rightarrow> jsval) \<Rightarrow> string \<Rightarrow> SurveyResponse \<Rightarrow> jsval" where
  "chordValue getYearsCategory field d =
     (if field = years_at_medtronic
      then getYearsCategory (js_or (getProp d years_at_medtronic) (JNum (Fin 0)))
      else getProp d field)"

definition chordTotal :: "(jsval \<Rightarrow> jsval) \<Rightarrow> SurveyResponse list \<Rightarrow> string \<Rightarrow> jsval \<Rightarrow> nat" where
  "chordTotal getYearsCategory fd field cat =
     length (filter (\<lambda>d. js_strict_eq (chordValue getYearsCategory field d) cat) fd)"

section \<open>Field-pair rotation of the chord diagram\<close>

text \<open>
  \<^verbatim>\<open>ensureDifferentCategories\<close> and the interval callback that cycles through
  \<^verbatim>\<open>cyclingModes\<close>.  That table comes from \<^verbatim>\<open>shared/chordUtils\<close>, which is not
  among the sources, so it is a parameter: a list of (source, target) pairs.  On an empty
  table the index is NaN, the mode is \<^verbatim>\<open>undefined\<close>, and reading its source throws.
\<close>

definition chordAvailableFields :: "(string \<times> string) list" where
  "chordAvailableFields =
     [(''years_at_medtronic'', ''Years at Medtronic''),
      (''peak_performance'', ''Peak Performance''),
      (''learning_style'', ''Learning Style''),
      (''motivation'', ''Motivation''),
      (''shaped_by'', ''Shaped By'')]"

definition ensureDifferentCategories :: "string \<Rightarrow> string \<Rightarrow> string \<times> string" where
  "ensureDifferentCategories src tgt =
     (if src = tgt then
        (case find (\<lambda>field. fst field \<noteq> src) chordAvailableFields of
           Some differentOption \<Rightarrow> (src, fst differentOption)
         | None \<Rightarrow> (src, ''learning_style''))
      else (src, tgt))"

record ChordRotation =
  currentModeIndexRef :: nat
  chordSource :: string
  chordTarget :: string
  chordLastCategoryChange :: "string \<times> string"

datatype jsError = TypeError

definition cyclingInterval :: "(string \<times> string) list \<Rightarrow> ChordRotation \<Rightarrow> jsError + ChordRotation" where
  "cyclingInterval cyclingModes st =
     (if cyclingModes = [] then Inl TypeError
      else
        (let nextModeIndex = (currentModeIndexRef st + 1) mod length cyclingModes;
             nextMode = cyclingModes ! nextModeIndex
         in if fst nextMode = snd nextMode then Inr st
            else Inr (st\<lparr>currentModeIndexRef := nextModeIndex,
                          chordSource := fst nextMode,
                          chordTarget := snd nextMode,
                          chordLastCategoryChange := nextMode\<rparr>)))"

text \<open>
  The effect that follows a change of the pair: the ref is set to the first mode with
  that pair, when there is one.
\<close>

definition syncModeIndex :: "(string \<times> string) list \<Rightarrow> ChordRotation \<Rightarrow> ChordRotation" where
  "syncModeIndex cyclingModes st =
     (let modeIndex = indexOf cyclingModes (chordSource st, chordTarget st)
      in if modeIndex \<noteq> - 1 then st\<lparr>currentModeIndexRef := nat modeIndex\<rparr> else st)"

definition rotationTick :: "(string \<times> string) list \<Rightarrow> ChordRotation \<Rightarrow> jsError + ChordRotation" where
  "rotationTick cyclingModes st =
     (case cyclingInterval cyclingModes st of
        Inl e \<Rightarrow> Inl e
      | Inr st' \<Rightarrow> Inr (syncModeIndex cyclingModes st'))"

fun rotationTicks :: "nat \<Rightarrow> (string \<times> string) list \<Rightarrow> ChordRotation \<Rightarrow> jsError + ChordRotation" where
  "rotationTicks 0 cyclingModes st = Inr st"
| "rotationTicks (Suc n) cyclingModes st =
     (case rotationTick cyclingModes st of
        Inl e \<Rightarrow> Inl e
      | Inr st' \<Rightarrow> rotationTicks n cyclingModes st')"

definition selfPairModes :: "(string \<times> string) list" where
  "selfPairModes =
     [(''years_at_medtronic'', ''learning_style''),
      (''motivation'', ''motivation''),
      (''shaped_by'', ''motivation'')]"

definition initialRotation :: ChordRotation where
  "initialRotation =
     \<lparr>currentModeIndexRef = 0, chordSource = ''years_at_medtronic'',
      chordTarget = ''learning_style'',
      chordLastCategoryChange = (''years_at_medtronic'', ''learning_style'')\<rparr>"

section \<open>The links map\<close>

lemma update_absent: "k \<notin> fst ` set m \<Longrightarrow> AList.update k v m = m @ [(k, v)]"
  by (induction m) auto

lemma update_present_map:
  assumes "distinct (map fst m)" "map_of m k = Some l"
  shows "AList.update k (f l) m = map (\<lambda>(k', l'). (k', if k' = k then f l' else l')) m"
  using assms
proof (induction m)
  case Nil
  then show ?case by simp
next
  case (Cons p m)
  show ?case
  proof (cases "fst p = k")
    case True
    with Cons.prems have "snd p = l" by (cases p) simp
    moreover from True Cons.prems have "k \<notin> fst ` set m" by auto
    then have "map (\<lambda>(k', l'). (k', if k' = k then f l' else l')) m = m"
      by (induction m) auto
    ultimately show ?thesis using True by (cases p) simp
  next
    case False
    with Cons show ?thesis by (cases p) auto
  qed
qed

lemma keys_map_snd: "map fst (map (\<lambda>(k, l). (k, f k l)) m) = map fst m"
  by (induction m) auto

lemma bumpN_add: "bumpN a (bumpN b l) = bumpN (a + b) l"
  by (simp add: bumpN_def)

lemma fillLink_step:
  assumes "distinct (map fst m)"
    and "\<And>k. hitKey g cs ct ss ts d = Some k \<Longrightarrow> k \<in> fst ` set m"
  shows "fillLink g cs ct ss ts d m =
         map (\<lambda>(k, l). (k, bumpN (if hitKey g cs ct ss ts d = Some k then 1 else 0) l)) m"
proof (cases "hitKey g cs ct ss ts d")
  case None
  then have "fillLink g cs ct ss ts d m = m"
    by (cases "sourceAccessor g cs d"; cases "targetAccessor g ct d")
       (auto simp: fillLink_def hitKey_def Let_def split: if_splits)
  moreover have "map (\<lambda>(k, l). (k, bumpN (if hitKey g cs ct ss ts d = Some k then 1 else 0) l)) m = m"
    using None by (induction m) (auto simp: bumpN_def)
  ultimately show ?thesis by simp
next
  case (Some key)
  then obtain s t where st: "sourceAccessor g cs d = JStr s" "targetAccessor g ct d = JStr t"
    "s \<in> set ss" "t \<in> set ts" "key = linkKey (nodeId cs s) (nodeId ct t)"
    by (auto simp: hitKey_def split: jsval.splits if_splits prod.splits)
  from assms(2) Some have "key \<in> fst ` set m" by simp
  then obtain l where l: "map_of m key = Some l"
    by (metis domD dom_map_of_conv_image_fst)
  have "fillLink g cs ct ss ts d m = AList.update key (l\<lparr>val := val l + 1, isDummy := False\<rparr>) m"
    using st l by (simp add: fillLink_def Let_def)
  also have "\<dots> = map (\<lambda>(k', l'). (k', if k' = key then l'\<lparr>val := val l' + 1, isDummy := False\<rparr> else l')) m"
    using update_present_map [OF assms(1) l, of "\<lambda>l. l\<lparr>val := val l + 1, isDummy := False\<rparr>"] by simp
  also have "\<dots> = map (\<lambda>(k, l). (k, bumpN (if hitKey g cs ct ss ts d = Some k then 1 else 0) l)) m"
    using Some by (intro map_cong) (auto simp: bumpN_def)
  finally show ?thesis .
qed

lemma fold_fillLink:
  assumes "distinct (map fst m)"
    and "\<And>d k. d \<in> set ds \<Longrightarrow> hitKey g cs ct ss ts d = Some k \<Longrightarrow> k \<in> fst ` set m"
  shows "fold (fillLink g cs ct ss ts) ds m =
         map (\<lambda>(k, l). (k, bumpN (hits (hitKey g cs ct ss ts) ds k) l)) m"
  using assms
proof (induction ds arbitrary: m)
  case Nil
  show ?case by (induction m) (auto simp: hits_def bumpN_def)
next
  case (Cons d ds)
  let ?h = "hitKey g cs ct ss ts"
  let ?m' = "map (\<lambda>(k, l). (k, bumpN (if ?h d = Some k then 1 else 0) l)) m"
  have step: "fillLink g cs ct ss ts d m = ?m'"
    using Cons.prems by (intro fillLink_step) auto
  have keys: "map fst ?m' = map fst m" by (rule keys_map_snd)
  have "fold (fillLink g cs ct ss ts) ds ?m' =
        map (\<lambda>(k, l). (k, bumpN (hits ?h ds k) l)) ?m'"
  proof (rule Cons.IH)
    show "distinct (map fst ?m')" using Cons.prems(1) by (simp only: keys)
  next
    fix d' k assume "d' \<in> set ds" "?h d' = Some k"
    then have "k \<in> fst ` set m" using Cons.prems(2) [of d' k] by simp
    then show "k \<in> fst ` set ?m'" using keys by (metis list.set_map)
  qed
  also have "\<dots> = map (\<lambda>(k, l). (k, bumpN (hits ?h (d # ds) k) l)) m"
    by (auto simp: bumpN_add hits_def)
  finally show ?case using step by simp
qed

lemma fold_product:
  "fold (\<lambda>s. fold (\<lambda>t. g s t) ts) ss = fold (\<lambda>p. g (fst p) (snd p)) (List.product ss ts)"
  by (induction ss) (simp_all add: fold_map comp_def)

lemma crossLinks_product:
  "crossLinks cs ct ss ts =
   fold (\<lambda>p. AList.update (keyOf cs ct p) (dummyLink cs ct (fst p) (snd p))) (List.product ss ts) []"
  unfolding crossLinks_def keyOf_def
  by (simp add: fold_product [where g = "\<lambda>s t. AList.update (linkKey (nodeId cs s) (nodeId ct t)) (dummyLink cs ct s t)"])

lemma fold_update_distinct:
  "distinct (map fst m) \<Longrightarrow> distinct (map fst (fold (\<lambda>p. AList.update (kf p) (vf p)) ps m))"
  by (induction ps arbitrary: m) (simp_all add: distinct_update)

lemma fold_update_keys:
  "fst ` set (fold (\<lambda>p. AList.update (kf p) (vf p)) ps m) = fst ` set m \<union> kf ` set ps"
  by (induction ps arbitrary: m) (auto simp: dom_update)

lemma set_update_subset: "set (AList.update k v m) \<subseteq> insert (k, v) (set m)"
  by (induction m) auto

lemma fold_update_entries:
  "set (fold (\<lambda>p. AList.update (kf p) (vf p)) ps m) \<subseteq> set m \<union> (\<lambda>p. (kf p, vf p)) ` set ps"
proof (induction ps arbitrary: m)
  case Nil
  show ?case by simp
next
  case (Cons p ps)
  have "set (fold (\<lambda>p. AList.update (kf p) (vf p)) ps (AList.update (kf p) (vf p) m))
        \<subseteq> set (AList.update (kf p) (vf p) m) \<union> (\<lambda>p. (kf p, vf p)) ` set ps"
    by (rule Cons.IH)
  also have "\<dots> \<subseteq> set m \<union> (\<lambda>p. (kf p, vf p)) ` set (p # ps)"
    using set_update_subset [of "kf p" "vf p" m] by auto
  finally show ?case by simp
qed

lemma fold_update_fresh:
  "distinct (map kf ps) \<Longrightarrow> kf ` set ps \<inter> fst ` set m = {} \<Longrightarrow>
   fold (\<lambda>p. AList.update (kf p) (vf p)) ps m = m @ map (\<lambda>p. (kf p, vf p)) ps"
proof (induction ps arbitrary: m)
  case Nil
  show ?case by simp
next
  case (Cons p ps)
  from Cons.prems have fresh: "kf p \<notin> fst ` set m" by auto
  then have upd: "AList.update (kf p) (vf p) m = m @ [(kf p, vf p)]" by (rule update_absent)
  have "fold (\<lambda>p. AList.update (kf p) (vf p)) ps (m @ [(kf p, vf p)])
        = (m @ [(kf p, vf p)]) @ map (\<lambda>p. (kf p, vf p)) ps"
    using Cons.prems by (intro Cons.IH) auto
  then show ?case using upd by simp
qed

lemma crossLinks_distinct: "distinct (map fst (crossLinks cs ct ss ts))"
  unfolding crossLinks_product by (rule fold_update_distinct) simp

lemma crossLinks_keys:
  "fst ` set (crossLinks cs ct ss ts) = keyOf cs ct ` (set ss \<times> set ts)"
  unfolding crossLinks_product by (simp add: fold_update_keys)

lemma crossLinks_dummy:
  "(k, l) \<in> set (crossLinks cs ct ss ts) \<Longrightarrow> isDummy l \<and> val l = 0"
  using fold_update_entries [of "keyOf cs ct" "\<lambda>p. dummyLink cs ct (fst p) (snd p)" "List.product ss ts" "[]"]
  unfolding crossLinks_product by (auto simp: dummyLink_def)

lemma crossLinks_keysDistinct:
  "keysDistinct cs ct ss ts \<Longrightarrow>
   crossLinks cs ct ss ts = map (\<lambda>p. (keyOf cs ct p, dummyLink cs ct (fst p) (snd p))) (List.product ss ts)"
  unfolding crossLinks_product keysDistinct_def
  using fold_update_fresh [of "keyOf cs ct" "List.product ss ts" "[]"] by simp

lemma hitKey_in_keys:
  "hitKey g cs ct ss ts d = Some k \<Longrightarrow> k \<in> fst ` set (crossLinks cs ct ss ts)"
proof -
  assume "hitKey g cs ct ss ts d = Some k"
  then obtain s t where "s \<in> set ss" "t \<in> set ts" "k = keyOf cs ct (s, t)"
    by (auto simp: hitKey_def keyOf_def split: jsval.splits if_splits prod.splits)
  then show ?thesis unfolding crossLinks_keys by blast
qed

lemma filled_crossLinks:
  "fold (fillLink g cs ct ss ts) ds (crossLinks cs ct ss ts) =
   map (\<lambda>(k, l). (k, bumpN (hits (hitKey g cs ct ss ts) ds k) l)) (crossLinks cs ct ss ts)"
  by (rule fold_fillLink) (simp_all add: crossLinks_distinct hitKey_in_keys)

lemma hitKey_None_iff: "hitKey g cs ct ss ts d \<noteq> None \<longleftrightarrow> counted g cs ct ss ts d"
  by (cases "sourceAccessor g cs d"; cases "targetAccessor g ct d")
     (auto simp: hitKey_def counted_def)

lemma hits_keyOf:
  assumes kd: "keysDistinct cs ct ss ts" and p: "p \<in> set (List.product ss ts)"
  shows "hits (hitKey g cs ct ss ts) ds (keyOf cs ct p) = matchCount g cs ct ds (fst p) (snd p)"
proof -
  from kd have inj: "inj_on (keyOf cs ct) (set (List.product ss ts))"
    unfolding keysDistinct_def by (simp add: distinct_map)
  have "hitKey g cs ct ss ts d = Some (keyOf cs ct p) \<longleftrightarrow>
        sourceAccessor g cs d = JStr (fst p) \<and> targetAccessor g ct d = JStr (snd p)" for d
  proof
    assume "hitKey g cs ct ss ts d = Some (keyOf cs ct p)"
    then obtain s t where st: "sourceAccessor g cs d = JStr s" "targetAccessor g ct d = JStr t"
      "s \<in> set ss" "t \<in> set ts" "keyOf cs ct (s, t) = keyOf cs ct p"
      by (auto simp: hitKey_def keyOf_def split: jsval.splits if_splits prod.splits)
    from st(3,4) have "(s, t) \<in> set (List.product ss ts)" by simp
    with inj st(5) p have "(s, t) = p" by (auto dest: inj_onD)
    with st show "sourceAccessor g cs d = JStr (fst p) \<and> targetAccessor g ct d = JStr (snd p)"
      by auto
  next
    assume "sourceAccessor g cs d = JStr (fst p) \<and> targetAccessor g ct d = JStr (snd p)"
    moreover from p have "fst p \<in> set ss \<and> snd p \<in> set ts" by (simp add: mem_Times_iff)
    ultimately show "hitKey g cs ct ss ts d = Some (keyOf cs ct p)"
      by (simp add: hitKey_def keyOf_def)
  qed
  then show ?thesis by (simp add: hits_def matchCount_def)
qed

lemma bumpN_dummy:
  "(if isDummy (bumpN n (dummyLink cs ct s t))
    then (bumpN n (dummyLink cs ct s t))\<lparr>val := 0.0001\<rparr>
    else bumpN n (dummyLink cs ct s t)) = finalLink cs ct s t n"
  by (simp add: bumpN_def dummyLink_def finalLink_def)

lemma links_char:
  assumes kd: "keysDistinct cs ct ss ts"
  shows "map snd (markDummies (fold (fillLink g cs ct ss ts) ds (crossLinks cs ct ss ts))) =
         map (\<lambda>p. finalLink cs ct (fst p) (snd p) (matchCount g cs ct ds (fst p) (snd p)))
           (List.product ss ts)"
proof -
  let ?h = "hits (hitKey g cs ct ss ts) ds"
  have "map snd (markDummies (fold (fillLink g cs ct ss ts) ds (crossLinks cs ct ss ts))) =
        map snd (markDummies (map (\<lambda>(k, l). (k, bumpN (?h k) l)) (crossLinks cs ct ss ts)))"
    by (simp only: filled_crossLinks)
  also have "\<dots> = map snd (markDummies (map (\<lambda>(k, l). (k, bumpN (?h k) l))
        (map (\<lambda>p. (keyOf cs ct p, dummyLink cs ct (fst p) (snd p))) (List.product ss ts))))"
    by (simp only: crossLinks_keysDistinct [OF kd])
  also have "\<dots> = map (\<lambda>p. finalLink cs ct (fst p) (snd p) (?h (keyOf cs ct p))) (List.product ss ts)"
    by (simp add: markDummies_def comp_def bumpN_dummy)
  also have "\<dots> = map (\<lambda>p. finalLink cs ct (fst p) (snd p) (matchCount g cs ct ds (fst p) (snd p)))
          (List.product ss ts)"
    by (rule map_cong [OF refl]) (simp add: hits_keyOf [OF kd])
  finally show ?thesis .
qed

lemma delta_sum:
  "distinct ks \<Longrightarrow>
   sum_list (map (\<lambda>k. if x = Some k then 1 else 0) ks) = (if x \<in> Some ` set ks then 1 else (0::nat))"
  by (induction ks) auto

lemma hits_Cons: "hits h (d # ds) = (\<lambda>k. (if h d = Some k then 1 else 0) + hits h ds k)"
  by (rule ext) (simp add: hits_def)

lemma sum_hits:
  assumes "distinct ks" and "\<And>d k. d \<in> set ds \<Longrightarrow> h d = Some k \<Longrightarrow> k \<in> set ks"
  shows "sum_list (map (hits h ds) ks) = length (filter (\<lambda>d. h d \<noteq> None) ds)"
  using assms(2)
proof (induction ds)
  case Nil
  show ?case by (simp add: hits_def)
next
  case (Cons d ds)
  have "sum_list (map (hits h (d # ds)) ks) =
        sum_list (map (\<lambda>k. if h d = Some k then 1 else 0) ks) + sum_list (map (hits h ds) ks)"
    by (simp add: hits_Cons sum_list_addf)
  also have "sum_list (map (\<lambda>k. if h d = Some k then 1 else 0) ks) = (if h d \<in> Some ` set ks then 1 else (0::nat))"
    by (rule delta_sum [OF assms(1)])
  also have "(h d \<in> Some ` set ks) = (h d \<noteq> None)"
    using Cons.prems [of d] by (cases "h d") auto
  also have "sum_list (map (hits h ds) ks) = length (filter (\<lambda>d. h d \<noteq> None) ds)"
    using Cons.prems by (intro Cons.IH) auto
  finally show ?case by simp
qed

lemma realValue_marked:
  "isDummy l \<and> val l = 0 \<Longrightarrow>
   realValue (if isDummy (bumpN n l) then (bumpN n l)\<lparr>val := 0.0001\<rparr> else bumpN n l) = of_nat n"
  by (simp add: realValue_def bumpN_def)

lemma realValue_total:
  "sum_list (map realValue
     (map snd (markDummies (fold (fillLink g cs ct ss ts) ds (crossLinks cs ct ss ts))))) =
   of_nat (length (filter (counted g cs ct ss ts) ds))"
proof -
  let ?h = "hitKey g cs ct ss ts"
  let ?m = "crossLinks cs ct ss ts"
  have "map realValue (map snd (markDummies (map (\<lambda>(k, l). (k, bumpN (hits ?h ds k) l)) ?m))) =
        map (\<lambda>kl. of_nat (hits ?h ds (fst kl))) ?m"
    unfolding markDummies_def map_map
    by (rule map_cong [OF refl]) (auto simp: realValue_marked dest: crossLinks_dummy)
  then have "sum_list (map realValue
     (map snd (markDummies (fold (fillLink g cs ct ss ts) ds ?m)))) =
     sum_list (map (\<lambda>kl. of_nat (hits ?h ds (fst kl))) ?m)"
    by (simp only: filled_crossLinks)
  also have "\<dots> = of_nat (sum_list (map (hits ?h ds) (map fst ?m)))"
    by (simp add: comp_def sum_list_of_nat [symmetric])
  also have "sum_list (map (hits ?h ds) (map fst ?m)) = length (filter (\<lambda>d. ?h d \<noteq> None) ds)"
    by (rule sum_hits) (simp_all add: crossLinks_distinct hitKey_in_keys)
  finally show ?thesis unfolding hitKey_None_iff .
qed

lemma filter_product_fst:
  "distinct ss \<Longrightarrow> s0 \<in> set ss \<Longrightarrow>
   filter (\<lambda>p. fst p = s0) (List.product ss ts) = map (Pair s0) ts"
proof (induction ss)
  case Nil
  then show ?case by simp
next
  case (Cons s ss)
  have none: "s0 \<notin> set ss \<Longrightarrow> filter (\<lambda>p. fst p = s0) (List.product ss ts) = []" for ss :: "'a list"
    by (auto simp: filter_empty_conv)
  show ?case
  proof (cases "s = s0")
    case True
    with Cons.prems have "s0 \<notin> set ss" by simp
    with True show ?thesis by (simp add: none filter_map comp_def)
  next
    case False
    with Cons show ?thesis by (simp add: filter_map comp_def)
  qed
qed

lemma filter_product_snd:
  "distinct ts \<Longrightarrow> t0 \<in> set ts \<Longrightarrow>
   filter (\<lambda>p. snd p = t0) (List.product ss ts) = map (\<lambda>s. (s, t0)) ss"
proof (induction ss)
  case Nil
  then show ?case by simp
next
  case (Cons s ss)
  have one: "filter (\<lambda>t. t = t0) ts = [t0]"
    using Cons.prems by (induction ts) (auto simp: filter_empty_conv)
  have "filter (\<lambda>p. snd p = t0) (map (Pair s) ts) = map (Pair s) (filter (\<lambda>t. t = t0) ts)"
    by (simp add: filter_map comp_def)
  with one Cons show ?case by simp
qed

lemma nodeId_inj: "nodeId f a = nodeId f b \<longleftrightarrow> a = b"
  by (simp add: nodeId_def)

lemma realValue_finalLink: "realValue (finalLink cs ct s t n) = of_nat n"
  by (simp add: realValue_def finalLink_def)

lemma includes_sum:
  "distinct ts \<Longrightarrow>
   sum_list (map (\<lambda>t. if v = JStr t then 1 else 0) ts) = (if js_includes ts v then 1 else (0::nat))"
  by (induction ts) (cases v; auto)+

lemma matchCount_Cons:
  "matchCount g cs ct (d # ds) s t =
   (if sourceAccessor g cs d = JStr s \<and> targetAccessor g ct d = JStr t then 1 else 0) +
   matchCount g cs ct ds s t"
  by (simp add: matchCount_def)

lemma matchCount_Cons_fun:
  "matchCount g cs ct (d # ds) s =
   (\<lambda>t. (if sourceAccessor g cs d = JStr s \<and> targetAccessor g ct d = JStr t then 1 else 0) +
   matchCount g cs ct ds s t)"
  by (rule ext) (rule matchCount_Cons)

lemma row_sum:
  assumes "distinct ts"
  shows "sum_list (map (matchCount g cs ct ds s0) ts) =
         length (filter (\<lambda>d. sourceAccessor g cs d = JStr s0 \<and> js_includes ts (targetAccessor g ct d)) ds)"
proof (induction ds)
  case Nil
  show ?case by (simp add: matchCount_def)
next
  case (Cons d ds)
  have "sum_list (map (matchCount g cs ct (d # ds) s0) ts) =
        sum_list (map (\<lambda>t. if sourceAccessor g cs d = JStr s0 \<and> targetAccessor g ct d = JStr t then 1 else 0) ts) +
        sum_list (map (matchCount g cs ct ds s0) ts)"
    by (simp add: matchCount_Cons_fun sum_list_addf)
  also have "sum_list (map (\<lambda>t. if sourceAccessor g cs d = JStr s0 \<and> targetAccessor g ct d = JStr t then 1 else 0) ts) =
        (if sourceAccessor g cs d = JStr s0 \<and> js_includes ts (targetAccessor g ct d) then 1 else (0::nat))"
    using includes_sum [OF assms, of "targetAccessor g ct d"] by (cases "sourceAccessor g cs d = JStr s0") simp_all
  finally show ?case using Cons.IH by simp
qed

lemma col_sum:
  assumes "distinct ss"
  shows "sum_list (map (\<lambda>s. matchCount g cs ct ds s t0) ss) =
         length (filter (\<lambda>d. js_includes ss (sourceAccessor g cs d) \<and> targetAccessor g ct d = JStr t0) ds)"
proof (induction ds)
  case Nil
  show ?case by (simp add: matchCount_def)
next
  case (Cons d ds)
  have "sum_list (map (\<lambda>s. matchCount g cs ct (d # ds) s t0) ss) =
        sum_list (map (\<lambda>s. if sourceAccessor g cs d = JStr s \<and> targetAccessor g ct d = JStr t0 then 1 else 0) ss) +
        sum_list (map (\<lambda>s. matchCount g cs ct ds s t0) ss)"
    by (simp add: matchCount_Cons sum_list_addf)
  also have "sum_list (map (\<lambda>s. if sourceAccessor g cs d = JStr s \<and> targetAccessor g ct d = JStr t0 then 1 else 0) ss) =
        (if js_includes ss (sourceAccessor g cs d) \<and> targetAccessor g ct d = JStr t0 then 1 else (0::nat))"
    using includes_sum [OF assms, of "sourceAccessor g cs d"] by (cases "targetAccessor g ct d = JStr t0") simp_all
  finally show ?case using Cons.IH by simp
qed

lemma source_sum:
  assumes kd: "keysDistinct cs ct ss ts" and "distinct ss" "distinct ts" "s0 \<in> set ss"
  shows "sum_list (map realValue (filter (\<lambda>l. source l = nodeId cs s0)
           (map snd (markDummies (fold (fillLink g cs ct ss ts) ds (crossLinks cs ct ss ts)))))) =
         of_nat (length (filter (\<lambda>d. sourceAccessor g cs d = JStr s0 \<and>
                                     js_includes ts (targetAccessor g ct d)) ds))"
proof -
  let ?F = "\<lambda>p. finalLink cs ct (fst p) (snd p) (matchCount g cs ct ds (fst p) (snd p))"
  have "filter (\<lambda>l. source l = nodeId cs s0) (map ?F (List.product ss ts)) =
        map ?F (filter (\<lambda>p. fst p = s0) (List.product ss ts))"
    by (simp add: filter_map comp_def finalLink_def nodeId_inj)
  also have "\<dots> = map ?F (map (Pair s0) ts)"
    using assms by (simp add: filter_product_fst)
  finally have "sum_list (map realValue (filter (\<lambda>l. source l = nodeId cs s0) (map ?F (List.product ss ts)))) =
     of_nat (sum_list (map (matchCount g cs ct ds s0) ts))"
    by (simp add: comp_def realValue_finalLink sum_list_of_nat [symmetric])
  then show ?thesis
    by (simp only: links_char [OF kd] row_sum [OF assms(3)])
qed

lemma target_sum:
  assumes kd: "keysDistinct cs ct ss ts" and "distinct ss" "distinct ts" "t0 \<in> set ts"
  shows "sum_list (map realValue (filter (\<lambda>l. target l = nodeId ct t0)
           (map snd (markDummies (fold (fillLink g cs ct ss ts) ds (crossLinks cs ct ss ts)))))) =
         of_nat (length (filter (\<lambda>d. js_includes ss (sourceAccessor g cs d) \<and>
                                     targetAccessor g ct d = JStr t0) ds))"
proof -
  let ?F = "\<lambda>p. finalLink cs ct (fst p) (snd p) (matchCount g cs ct ds (fst p) (snd p))"
  have "filter (\<lambda>l. target l = nodeId ct t0) (map ?F (List.product ss ts)) =
        map ?F (filter (\<lambda>p. snd p = t0) (List.product ss ts))"
    by (simp add: filter_map comp_def finalLink_def nodeId_inj)
  also have "\<dots> = map ?F (map (\<lambda>s. (s, t0)) ss)"
    using assms by (simp add: filter_product_snd)
  finally have "sum_list (map realValue (filter (\<lambda>l. target l = nodeId ct t0) (map ?F (List.product ss ts)))) =
     of_nat (sum_list (map (\<lambda>s. matchCount g cs ct ds s t0) ss))"
    by (simp add: comp_def realValue_finalLink sum_list_of_nat [symmetric])
  then show ?thesis
    by (simp only: links_char [OF kd] col_sum [OF assms(2)])
qed

lemma fold_insert_set:
  "set (fold (\<lambda>x acc. if x \<in> set acc then acc else acc @ [x]) xs acc) = set acc \<union> set xs"
  by (induction xs arbitrary: acc) auto

lemma fold_insert_distinct:
  "distinct acc \<Longrightarrow> distinct (fold (\<lambda>x acc. if x \<in> set acc then acc else acc @ [x]) xs acc)"
  by (induction xs arbitrary: acc) auto

lemma set_array_from_set: "set (array_from_set xs) = set xs"
  by (simp add: array_from_set_def fold_insert_set)

lemma distinct_array_from_set: "distinct (array_from_set xs)"
  by (simp add: array_from_set_def fold_insert_distinct)

lemma set_nonempty_string: "set (nonempty_string v) = {s. s \<noteq> [] \<and> v = JStr s}"
  by (cases v) auto

lemma set_nonempty_strings: "set (nonempty_strings vs) = {s. s \<noteq> [] \<and> JStr s \<in> set vs}"
  by (auto simp: nonempty_strings_def set_nonempty_string)

lemma distinct_nonempty_strings: "distinct vs \<Longrightarrow> distinct (nonempty_strings vs)"
proof (induction vs)
  case Nil
  show ?case by (simp add: nonempty_strings_def)
next
  case (Cons v vs)
  then have "distinct (nonempty_strings vs)" by simp
  moreover have "nonempty_strings (v # vs) = nonempty_string v @ nonempty_strings vs"
    by (simp add: nonempty_strings_def)
  moreover have "distinct (nonempty_string v)" by (cases v) auto
  moreover have "set (nonempty_string v) \<inter> set (nonempty_strings vs) = {}"
    using Cons.prems by (auto simp: set_nonempty_string set_nonempty_strings)
  ultimately show ?case by simp
qed

lemma distinct_YEARS: "distinct YEARS_CATEGORIES"
  by (simp add: YEARS_CATEGORIES_def)

lemma distinct_sources: "distinct (sources fd cs)"
  by (simp add: sources_def distinct_YEARS distinct_nonempty_strings distinct_array_from_set)

lemma distinct_targets: "distinct (targets fd ct)"
  by (simp add: targets_def distinct_YEARS distinct_nonempty_strings distinct_array_from_set)

lemma set_sortNodes: "set (sortNodes f xs) = set xs"
  by (simp add: sortNodes_def)

lemma distinct_sortNodes: "distinct (sortNodes f xs) = distinct xs"
  by (simp add: sortNodes_def)

lemma distinct_sortedSources: "distinct (sortedSources fd cs)"
  by (simp add: sortedSources_def distinct_sortNodes distinct_sources)

lemma distinct_sortedTargets: "distinct (sortedTargets fd ct)"
  by (simp add: sortedTargets_def distinct_sortNodes distinct_targets)

lemma years_index_sorted: "sorted (map (indexOf YEARS_CATEGORIES) YEARS_CATEGORIES)"
  by (simp add: YEARS_CATEGORIES_def)

lemma sortNodes_years_filter:
  "sortNodes years_at_medtronic (filter P YEARS_CATEGORIES) = filter P YEARS_CATEGORIES"
  unfolding sortNodes_def
  by (simp add: sort_key_id_if_sorted sorted_filter years_index_sorted)

lemma list_ex_validYears: "list_ex (\<lambda>d. validYearsOf d = c) fd \<longleftrightarrow> c \<in> validYearsOf ` set fd"
  by (auto simp: list_ex_iff)

lemma sortNodes_Nil: "sortNodes f [] = []"
  by (simp add: sortNodes_def)

lemma sortedSources_years:
  "sortedSources fd years_at_medtronic = filter (\<lambda>c. c \<in> validYearsOf ` set fd) YEARS_CATEGORIES"
  by (cases "fd = []") (simp_all add: sortedSources_def sources_def sortNodes_years_filter list_ex_validYears sortNodes_Nil)

lemma sortedTargets_years:
  "sortedTargets fd years_at_medtronic = filter (\<lambda>c. c \<in> validYearsOf ` set fd) YEARS_CATEGORIES"
  by (cases "fd = []") (simp_all add: sortedTargets_def targets_def sortNodes_years_filter list_ex_validYears sortNodes_Nil)

lemma set_sortedSources_cat:
  "cs \<noteq> years_at_medtronic \<Longrightarrow>
   set (sortedSources fd cs) = {s. s \<noteq> [] \<and> (\<exists>d\<in>set fd. getProp d cs = JStr s)}"
  by (auto simp: sortedSources_def set_sortNodes sources_def set_nonempty_strings set_array_from_set image_iff)
     (metis)+

lemma set_sortedTargets_cat:
  "ct \<noteq> years_at_medtronic \<Longrightarrow>
   set (sortedTargets fd ct) = {s. s \<noteq> [] \<and> (\<exists>d\<in>set fd. getProp d ct = JStr s)}"
  by (auto simp: sortedTargets_def set_sortNodes targets_def set_nonempty_strings set_array_from_set image_iff)
     (metis)+

lemma sorted_sortedSources_cat: "cs \<noteq> years_at_medtronic \<Longrightarrow> sorted (sortedSources fd cs)"
  by (simp add: sortedSources_def sortNodes_def)

lemma sorted_sortedTargets_cat: "ct \<noteq> years_at_medtronic \<Longrightarrow> sorted (sortedTargets fd ct)"
  by (simp add: sortedTargets_def sortNodes_def)

lemma sortedSources_set_cong:
  assumes "set fd = set fd'"
  shows "sortedSources fd cs = sortedSources fd' cs"
proof (cases "cs = years_at_medtronic")
  case True
  then show ?thesis using assms by (simp add: sortedSources_years)
next
  case False
  show ?thesis
  proof (rule sorted_distinct_set_unique)
    show "set (sortedSources fd cs) = set (sortedSources fd' cs)"
      using False assms by (simp add: set_sortedSources_cat)
  qed (simp_all add: False sorted_sortedSources_cat distinct_sortedSources)
qed

lemma sortedTargets_set_cong:
  assumes "set fd = set fd'"
  shows "sortedTargets fd ct = sortedTargets fd' ct"
proof (cases "ct = years_at_medtronic")
  case True
  then show ?thesis using assms by (simp add: sortedTargets_years)
next
  case False
  show ?thesis
  proof (rule sorted_distinct_set_unique)
    show "set (sortedTargets fd ct) = set (sortedTargets fd' ct)"
      using False assms by (simp add: set_sortedTargets_cat)
  qed (simp_all add: False sorted_sortedTargets_cat distinct_sortedTargets)
qed

lemma sortNodes_idem: "sortNodes f (sortNodes f xs) = sortNodes f xs"
  by (simp add: sortNodes_def sort_key_id_if_sorted)

lemma hits_mset: "mset ds = mset ds' \<Longrightarrow> hits h ds k = hits h ds' k"
proof -
  assume "mset ds = mset ds'"
  then have "mset (filter (\<lambda>d. h d = Some k) ds) = mset (filter (\<lambda>d. h d = Some k) ds')"
    by simp
  then show ?thesis unfolding hits_def by (rule mset_eq_length)
qed

lemma alluvialLinks_mset:
  assumes "mset fd = mset fd'"
  shows "alluvialLinks g fd cs ct = alluvialLinks g fd' cs ct"
proof -
  from assms have s: "set fd = set fd'" by (rule mset_eq_setD)
  have ss: "sortedSources fd cs = sortedSources fd' cs" by (rule sortedSources_set_cong [OF s])
  have ts: "sortedTargets fd ct = sortedTargets fd' ct" by (rule sortedTargets_set_cong [OF s])
  have vd: "mset (validData fd cs ct) = mset (validData fd' cs ct)"
    using assms by (simp add: validData_def)
  show ?thesis
    unfolding alluvialLinks_def Let_def ss ts filled_crossLinks
    by (simp add: hits_mset [OF vd])
qed

lemma alluvialNodes_set:
  assumes "set fd = set fd'"
  shows "alluvialNodes fd cs ct = alluvialNodes fd' cs ct"
  by (simp add: alluvialNodes_def sortedSources_set_cong [OF assms] sortedTargets_set_cong [OF assms])

lemma filteredData_mset:
  assumes "mset data = mset data'"
  shows "mset (filteredData data u) = mset (filteredData data' u)"
proof -
  from assms have "data = [] \<longleftrightarrow> data' = []" by (metis mset_zero_iff)
  then show ?thesis using assms by (auto simp: filteredData_def)
qed

lemma aggregate_mset:
  assumes "mset data = mset data'"
  shows "aggregate g data u cs ct = aggregate g data' u cs ct"
proof -
  have m: "mset (filteredData data u) = mset (filteredData data' u)"
    by (rule filteredData_mset [OF assms])
  then have e: "filteredData data u = [] \<longleftrightarrow> filteredData data' u = []" by (metis mset_zero_iff)
  from m have s: "set (filteredData data u) = set (filteredData data' u)" by (rule mset_eq_setD)
  show ?thesis
    unfolding aggregate_def Let_def
    using e alluvialLinks_mset [OF m] alluvialNodes_set [OF s] by simp
qed

lemma takeWhile_sep: "c \<notin> set s \<Longrightarrow> takeWhile (\<lambda>x. x \<noteq> c) (s @ c # r) = s"
  by (induction s) auto

lemma sep_unique:
  assumes "c \<notin> set s" "c \<notin> set s'" "s @ c # r = s' @ c # r'"
  shows "s = s' \<and> r = r'"
proof -
  have "takeWhile (\<lambda>x. x \<noteq> c) (s @ c # r) = s" using assms(1) by (rule takeWhile_sep)
  moreover have "takeWhile (\<lambda>x. x \<noteq> c) (s' @ c # r') = s'" using assms(2) by (rule takeWhile_sep)
  ultimately have "s = s'" using assms(3) by simp
  with assms(3) show ?thesis by simp
qed

lemma keyOf_inj:
  assumes "CHR 0xE2 \<notin> set (fst p)" "CHR 0xE2 \<notin> set (fst q)" "keyOf cs ct p = keyOf cs ct q"
  shows "p = q"
proof -
  from assms(3) have "fst p @ CHR 0xE2 # ([CHR 0x86, CHR 0x92] @ ct @ '':'' @ snd p) =
      fst q @ CHR 0xE2 # ([CHR 0x86, CHR 0x92] @ ct @ '':'' @ snd q)"
    by (simp add: keyOf_def linkKey_def nodeId_def arrow_def)
  from sep_unique [OF assms(1,2) this] show ?thesis by (simp add: prod_eq_iff)
qed

lemma keysDistinct_arrow_free:
  assumes "distinct ss" "distinct ts" "\<And>s. s \<in> set ss \<Longrightarrow> CHR 0xE2 \<notin> set s"
  shows "keysDistinct cs ct ss ts"
  unfolding keysDistinct_def distinct_map
proof
  show "distinct (List.product ss ts)" using assms(1,2) by (rule distinct_product)
  show "inj_on (keyOf cs ct) (set (List.product ss ts))"
  proof (rule inj_onI)
    fix p q
    assume "p \<in> set (List.product ss ts)" "q \<in> set (List.product ss ts)"
      and eq: "keyOf cs ct p = keyOf cs ct q"
    then have "fst p \<in> set ss" "fst q \<in> set ss" by (simp_all add: mem_Times_iff)
    then have "CHR 0xE2 \<notin> set (fst p)" "CHR 0xE2 \<notin> set (fst q)" by (simp_all add: assms(3))
    then show "p = q" using eq by (rule keyOf_inj)
  qed
qed

lemma alluvialLinks_char:
  assumes "keysDistinct cs ct (sortedSources fd cs) (sortedTargets fd ct)"
  shows "alluvialLinks g fd cs ct =
         map (\<lambda>p. finalLink cs ct (fst p) (snd p) (matchCount g cs ct (validData fd cs ct) (fst p) (snd p)))
           (List.product (sortedSources fd cs) (sortedTargets fd ct))"
  unfolding alluvialLinks_def Let_def by (rule links_char [OF assms])

lemma alluvialLinks_total:
  "sum_list (map realValue (alluvialLinks g fd cs ct)) =
   of_nat (length (filter (counted g cs ct (sortedSources fd cs) (sortedTargets fd ct))
                     (validData fd cs ct)))"
  unfolding alluvialLinks_def Let_def by (rule realValue_total)

lemma fillLink_skip:
  "\<not> js_includes ss (sourceAccessor g cs d) \<or> \<not> js_includes ts (targetAccessor g ct d) \<Longrightarrow>
   fillLink g cs ct ss ts d m = m"
  by (simp add: fillLink_def Let_def)

lemma fillLink_cong:
  assumes "sourceAccessor g cs d = sourceAccessor g' cs d"
    and "targetAccessor g ct d = targetAccessor g' ct d"
  shows "fillLink g cs ct ss ts d = fillLink g' cs ct ss ts d"
  by (rule ext) (simp add: fillLink_def assms)

lemma alluvialLinks_cong:
  assumes "\<And>d. d \<in> set fd \<Longrightarrow> sourceAccessor g cs d = sourceAccessor g' cs d"
    and "\<And>d. d \<in> set fd \<Longrightarrow> targetAccessor g ct d = targetAccessor g' ct d"
  shows "alluvialLinks g fd cs ct = alluvialLinks g' fd cs ct"
proof -
  have "fold (fillLink g cs ct ss ts) (validData fd cs ct) m =
        fold (fillLink g' cs ct ss ts) (validData fd cs ct) m" for ss ts m
  proof (rule fold_cong [OF refl refl])
    fix d assume "d \<in> set (validData fd cs ct)"
    then have "d \<in> set fd" by (simp add: validData_def)
    then show "fillLink g cs ct ss ts d = fillLink g' cs ct ss ts d"
      by (intro fillLink_cong assms)
  qed
  then show ?thesis by (simp only: alluvialLinks_def)
qed

section \<open>The sequencer's timers\<close>

lemma map_of_fresh:
  "list_all (\<lambda>p. fst p < (h::nat)) ps \<Longrightarrow> map_of (ps @ [(h, cb)]) h = Some cb"
  by (induction ps) auto

lemma handlesFresh_clearTimeout: "handlesFresh st \<Longrightarrow> handlesFresh (clearTimeout h st)"
  by (simp add: handlesFresh_def clearTimeout_def list_all_iff)

lemma handlesFresh_clearTracked: "handlesFresh st \<Longrightarrow> handlesFresh (clearTrackedTimer st)"
  by (auto simp: clearTrackedTimer_def handlesFresh_def clearTimeout_def list_all_iff split: option.splits)

lemma handlesFresh_setTimeout: "handlesFresh st \<Longrightarrow> handlesFresh (snd (setTimeout cb st))"
  by (auto simp: handlesFresh_def setTimeout_def list_all_iff)

lemma handlesFresh_trackTimeout: "handlesFresh st \<Longrightarrow> handlesFresh (trackTimeout cb st)"
  by (auto simp: handlesFresh_def trackTimeout_def setTimeout_def list_all_iff)

lemma trackTimeout_fields:
  "anim (trackTimeout cb st) = (anim st)\<lparr>timer := Some (nextHandle st)\<rparr>"
  "hoveredSourceIndex (trackTimeout cb st) = hoveredSourceIndex st"
  "pending (trackTimeout cb st) = pending st @ [(nextHandle st, cb)]"
  by (simp_all add: trackTimeout_def setTimeout_def)

lemma clearTracked_fields:
  "running (anim (clearTrackedTimer st)) = running (anim st)"
  "isPaused (anim (clearTrackedTimer st)) = isPaused (anim st)"
  "currentSourceIndex (anim (clearTrackedTimer st)) = currentSourceIndex (anim st)"
  "currentTargetIndex (anim (clearTrackedTimer st)) = currentTargetIndex (anim st)"
  "cycleCount (anim (clearTrackedTimer st)) = cycleCount (anim st)"
  "hoveredSourceIndex (clearTrackedTimer st) = hoveredSourceIndex st"
  "currentSource (clearTrackedTimer st) = currentSource st"
  by (simp_all add: clearTrackedTimer_def clearTimeout_def split: option.splits)

lemma cycling_animate:
  assumes "handlesFresh st" "running (anim st)" "\<not> isPaused (anim st)"
    and "0 < closureDataLength env" "cycleCount (anim st) \<le> 1000"
  shows "cycling env (currentSourceIndex (anim st)) (cycleCount (anim st) + 1) (animate env st)"
proof -
  let ?a2 = "(anim st)\<lparr>cycleCount := cycleCount (anim st) + 1\<rparr>"
  let ?st1 = "st\<lparr>anim := ?a2, animationPhase := Highlighting, isInFullOpacityState := False,
                  hoveredSourceIndex := Some (currentSourceIndex ?a2)\<rparr>"
  let ?opts = "targetOptionsFor (currentSource st)"
  have fresh1: "handlesFresh ?st1" using assms(1) by (simp add: handlesFresh_def)
  have an: "animate env st =
     (if int (currentSourceIndex (anim st)) < int (length (closureSources env)) - 1
      then trackTimeout (StepTimer env) ?st1
      else if int (currentTargetIndex (anim st)) < int (length ?opts) - 1
      then trackTimeout (NextTargetTimer env ?opts) (clearTrackedTimer ?st1)
      else trackTimeout (NextSourceTimer env) (clearTrackedTimer ?st1))"
    using assms(2-5) by (simp add: animate_def Let_def)
  show ?thesis
  proof (cases "int (currentSourceIndex (anim st)) < int (length (closureSources env)) - 1")
    case True
    have "map_of (pending ?st1 @ [(nextHandle ?st1, StepTimer env)]) (nextHandle ?st1) =
        Some (StepTimer env)"
      using fresh1 by (intro map_of_fresh) (simp add: handlesFresh_def)
    then show ?thesis
      using True assms(2,3) handlesFresh_trackTimeout [OF fresh1, of "StepTimer env"]
      by (simp add: an cycling_def trackTimeout_fields)
  next
    case False
    then have last: "\<not> currentSourceIndex (anim st) + 1 < length (closureSources env)" by linarith
    have fresh2: "handlesFresh (clearTrackedTimer ?st1)"
      by (rule handlesFresh_clearTracked [OF fresh1])
    show ?thesis
      using False last assms(2,3) handlesFresh_trackTimeout [OF fresh2]
      by (simp add: an cycling_def trackTimeout_fields clearTracked_fields)
  qed
qed

lemma cycling_start:
  assumes "handlesFresh st" "\<not> isPaused (anim st)" "0 < closureDataLength env"
  shows "cycling env 0 1 (startSequencer env st)"
proof -
  let ?st1 = "if running (anim st)
     then (let s = clearTrackedTimer st in s\<lparr>anim := (anim s)\<lparr>running := False\<rparr>\<rparr>)
     else st"
  let ?st2 = "?st1\<lparr>anim := (anim ?st1)\<lparr>running := True, currentSourceIndex := 0,
                                        currentTargetIndex := 0, cycleCount := 0\<rparr>\<rparr>"
  have f1: "handlesFresh ?st1"
    using assms(1) handlesFresh_clearTracked [OF assms(1)] by (simp add: handlesFresh_def Let_def)
  then have f2: "handlesFresh ?st2" by (simp add: handlesFresh_def)
  have p: "\<not> isPaused (anim ?st2)" using assms(2) by (simp add: Let_def clearTracked_fields)
  have "cycling env (currentSourceIndex (anim ?st2)) (cycleCount (anim ?st2) + 1) (animate env ?st2)"
    by (rule cycling_animate [OF f2 _ p assms(3)]) simp_all
  then show ?thesis by (simp add: startSequencer_def Let_def)
qed

lemma fire_found:
  "map_of (pending st) h = Some cb \<Longrightarrow> fire h st = runCallback cb (clearTimeout h st)"
  by (simp add: fire_def)

lemma clearTimeout_fields:
  "anim (clearTimeout h st) = anim st"
  "hoveredSourceIndex (clearTimeout h st) = hoveredSourceIndex st"
  by (simp_all add: clearTimeout_def)

lemma cycling_step:
  assumes "cycling env k c st" "k + 1 < length (closureSources env)" "c \<le> 1000"
    and "0 < closureDataLength env"
  shows "cycling env (k + 1) (c + 1) (fireTracked st)"
proof -
  from assms(1,2) obtain h where h: "timer (anim st) = Some h"
    "map_of (pending st) h = Some (StepTimer env)" by (auto simp: cycling_def)
  from assms(1) have run: "running (anim st)" "\<not> isPaused (anim st)"
    and idx: "currentSourceIndex (anim st) = k" "cycleCount (anim st) = c"
    and fresh: "handlesFresh st" by (simp_all add: cycling_def)
  let ?st' = "(clearTimeout h st)\<lparr>anim := (anim (clearTimeout h st))
      \<lparr>currentSourceIndex := currentSourceIndex (anim (clearTimeout h st)) + 1\<rparr>\<rparr>"
  have "fireTracked st = runCallback (StepTimer env) (clearTimeout h st)"
    using h by (simp add: fireTracked_def fire_found)
  also have "\<dots> = animate env ?st'"
    using run by (simp add: clearTimeout_fields)
  finally have eq: "fireTracked st = animate env ?st'" .
  have f: "handlesFresh ?st'"
    using handlesFresh_clearTimeout [OF fresh, of h] by (simp add: handlesFresh_def)
  have "cycling env (currentSourceIndex (anim ?st')) (cycleCount (anim ?st') + 1) (animate env ?st')"
    by (rule cycling_animate [OF f _ _ assms(4)]) (use run idx assms(3) in \<open>simp_all add: clearTimeout_fields\<close>)
  then show ?thesis using idx by (simp add: eq clearTimeout_fields)
qed

lemma cycling_steps:
  assumes "cycling env 0 1 st" "0 < closureDataLength env" "length (closureSources env) \<le> 1000"
  shows "k < length (closureSources env) \<Longrightarrow> cycling env k (k + 1) ((fireTracked ^^ k) st)"
proof (induction k)
  case 0
  then show ?case using assms(1) by simp
next
  case (Suc k)
  then have IH: "cycling env k (k + 1) ((fireTracked ^^ k) st)" by simp
  have "cycling env (k + 1) (k + 1 + 1) (fireTracked ((fireTracked ^^ k) st))"
    by (rule cycling_step [OF IH _ _ assms(2)]) (use Suc.prems assms(3) in simp_all)
  then show ?case by simp
qed

lemma cycling_pause_resume:
  assumes "cycling env k c st" "c \<le> 1000" "0 < closureDataLength env"
  shows "cycling env k (c + 1) (fireLast (resumeAnimation env (pauseAnimation st)))"
    and "currentSourceIndex (anim (pauseAnimation st)) = k"
    and "isPaused (anim (pauseAnimation st))"
proof -
  from assms(1) have run: "running (anim st)" "\<not> isPaused (anim st)"
    and idx: "currentSourceIndex (anim st) = k" "cycleCount (anim st) = c"
      "hoveredSourceIndex st = Some k"
    and fresh: "handlesFresh st" by (simp_all add: cycling_def)
  let ?before = "st\<lparr>anim := (anim st)\<lparr>isPaused := True\<rparr>\<rparr>"
  let ?paused = "clearTrackedTimer ?before"
  have pa: "pauseAnimation st = ?paused" using run by (simp add: pauseAnimation_def)
  have fp: "handlesFresh ?paused"
    by (rule handlesFresh_clearTracked) (use fresh in \<open>simp add: handlesFresh_def\<close>)
  show "currentSourceIndex (anim (pauseAnimation st)) = k"
    using idx by (simp add: pa clearTracked_fields)
  show "isPaused (anim (pauseAnimation st))" by (simp add: pa clearTracked_fields)
  let ?unpaused = "?paused\<lparr>anim := (anim ?paused)\<lparr>isPaused := False, resumeFrom := Some ''source''\<rparr>\<rparr>"
  let ?resumed = "snd (setTimeout (ResumeTimer env) ?unpaused)"
  have ra: "resumeAnimation env ?paused = ?resumed"
    using run by (simp add: resumeAnimation_def clearTracked_fields)
  have fr0: "handlesFresh ?unpaused" using fp by (simp add: handlesFresh_def)
  have pr: "pending ?resumed = pending ?unpaused @ [(nextHandle ?unpaused, ResumeTimer env)]"
    by (simp add: setTimeout_def)
  have found: "map_of (pending ?resumed) (nextHandle ?unpaused) = Some (ResumeTimer env)"
    unfolding pr using fr0 by (intro map_of_fresh) (simp add: handlesFresh_def)
  have "fireLast ?resumed = fire (nextHandle ?unpaused) ?resumed" by (simp add: fireLast_def pr)
  also have "\<dots> = runCallback (ResumeTimer env) (clearTimeout (nextHandle ?unpaused) ?resumed)"
    by (rule fire_found [OF found])
  also have "\<dots> = animate env (clearTimeout (nextHandle ?unpaused) ?resumed)"
    using run by (simp add: clearTimeout_fields setTimeout_def clearTracked_fields)
  finally have eq: "fireLast (resumeAnimation env (pauseAnimation st)) =
      animate env (clearTimeout (nextHandle ?unpaused) ?resumed)" by (simp add: pa ra)
  let ?s = "clearTimeout (nextHandle ?unpaused) ?resumed"
  have fs: "handlesFresh ?s"
    by (rule handlesFresh_clearTimeout) (rule handlesFresh_setTimeout [OF fr0])
  have fields: "running (anim ?s)" "\<not> isPaused (anim ?s)" "currentSourceIndex (anim ?s) = k"
    "cycleCount (anim ?s) = c"
    using run idx by (simp_all add: clearTimeout_fields setTimeout_def clearTracked_fields)
  have "cycling env (currentSourceIndex (anim ?s)) (cycleCount (anim ?s) + 1) (animate env ?s)"
    by (rule cycling_animate [OF fs fields(1,2) assms(3)]) (use fields(4) assms(2) in simp)
  then show "cycling env k (c + 1) (fireLast (resumeAnimation env (pauseAnimation st)))"
    by (simp only: eq fields)
qed

lemma stopped_callback_noop: "\<not> running (anim st) \<Longrightarrow> runCallback cb st = st"
  by (cases cb) simp_all

lemma stopped_fire:
  "\<not> running (anim st) \<Longrightarrow> fire h st = (case map_of (pending st) h of None \<Rightarrow> st | Some cb \<Rightarrow> clearTimeout h st)"
  by (simp add: fire_def stopped_callback_noop clearTimeout_fields split: option.splits)

lemma ensureDifferentCategories_eq:
  "ensureDifferentCategories src tgt =
     (if src \<noteq> tgt then (src, tgt)
      else if src = ''years_at_medtronic'' then (src, ''peak_performance'')
      else (src, ''years_at_medtronic''))"
  by (simp add: ensureDifferentCategories_def chordAvailableFields_def)

lemma ensureDifferentCategories_no_self_pair:
  "snd (ensureDifferentCategories src tgt) \<noteq> fst (ensureDifferentCategories src tgt)"
  by (auto simp: ensureDifferentCategories_eq)

lemma alluvial_rotation_no_self_pair:
  "list_all (\<lambda>src. arrayAt (targetOptionsFor (nextSourceOf src)) 0 \<noteq> JStr (nextSourceOf src) \<and>
                    list_all (\<lambda>t. t \<noteq> src) (targetOptionsFor src))
     (map fst availableFields)"
  by code_simp

lemma self_pair_tick: "rotationTick selfPairModes initialRotation = Inr initialRotation"
  by code_simp

text \<open>
  When only the tracked timer expires, a run started unpaused on a closure with data and
  at most 1000 source nodes highlights the index \<open>k\<close> after \<open>k\<close> expiries; pausing
  there keeps the cursor, the resume timer highlights \<open>k\<close> again and the next expiry
  \<open>k + 1\<close>.
\<close>

lemma tracked_chain_indices:
  assumes "handlesFresh st0" and "\<not> isPaused (anim st0)"
    and "0 < closureDataLength env"
    and "k < length (closureSources env)" and "length (closureSources env) \<le> 1000"
  shows "(let st = (fireTracked ^^ k) (startSequencer env st0);
              paused = pauseAnimation st;
              resumed = fireLast (resumeAnimation env paused)
          in hoveredSourceIndex st = Some k \<and>
             currentSourceIndex (anim st) = k \<and>
             isPaused (anim paused) \<and>
             currentSourceIndex (anim paused) = k \<and>
             hoveredSourceIndex resumed = Some k \<and>
             currentSourceIndex (anim resumed) = k \<and>
             (k + 1 < length (closureSources env) \<longrightarrow>
                hoveredSourceIndex (fireTracked resumed) = Some (k + 1) \<and>
                currentSourceIndex (anim (fireTracked resumed)) = k + 1))"
proof -
  let ?st = "(fireTracked ^^ k) (startSequencer env st0)"
  have start: "cycling env 0 1 (startSequencer env st0)"
    by (rule cycling_start [OF assms(1-3)])
  have at_k: "cycling env k (k + 1) ?st"
    by (rule cycling_steps [OF start assms(3,5,4)])
  have c: "k + 1 \<le> 1000" using assms(4,5) by simp
  note pr = cycling_pause_resume [OF at_k c assms(3)]
  have next_k: "cycling env (k + 1) (k + 1 + 1 + 1)
      (fireTracked (fireLast (resumeAnimation env (pauseAnimation ?st))))"
    if "k + 1 < length (closureSources env)"
    by (rule cycling_step [OF pr(1) that _ assms(3)]) (use that assms(5) in simp)
  show ?thesis
    unfolding Let_def using at_k pr next_k by (simp add: cycling_def)
qed

section \<open>Order independence of the layout input\<close>

lemma fold_max_set:
  fixes a :: real
  shows "fold max xs a = Max (insert a (set xs))"
  using Max.set_eq_fold [of a xs] by simp

lemma chartSizing_cong:
  assumes "set srcs = set srcs'" "distinct srcs" "distinct srcs'"
    and "set tgts = set tgts'" "distinct tgts" "distinct tgts'"
  shows "chartSizing w cw ch srcs tgts = chartSizing w cw ch srcs' tgts'"
proof -
  have l1: "length srcs = length srcs'"
    using assms(1-3) by (metis distinct_card)
  have l2: "length tgts = length tgts'"
    using assms(4-6) by (metis distinct_card)
  have m: "fold max (map (\<lambda>label. w label s) (srcs @ tgts)) 80 =
           fold max (map (\<lambda>label. w label s) (srcs' @ tgts')) 80" for s
    by (simp add: fold_max_set assms(1,4))
  show ?thesis unfolding chartSizing_def Let_def l1 l2 m ..
qed

lemma set_sources_cong: "set fd = set fd' \<Longrightarrow> set (sources fd cs) = set (sources fd' cs)"
proof -
  assume s: "set fd = set fd'"
  then have e: "fd = [] \<longleftrightarrow> fd' = []" by (metis set_empty)
  show ?thesis
    using s e by (auto simp: sources_def set_nonempty_strings set_array_from_set list_ex_iff)
qed

lemma set_targets_cong: "set fd = set fd' \<Longrightarrow> set (targets fd ct) = set (targets fd' ct)"
proof -
  assume s: "set fd = set fd'"
  then have e: "fd = [] \<longleftrightarrow> fd' = []" by (metis set_empty)
  show ?thesis
    using s e by (auto simp: targets_def set_nonempty_strings set_array_from_set list_ex_iff)
qed

lemma renderLayout_mset:
  assumes "mset data = mset data'"
  shows "renderLayout L w cw ch g data u cs ct = renderLayout L w cw ch g data' u cs ct"
proof -
  have m: "mset (filteredData data u) = mset (filteredData data' u)"
    by (rule filteredData_mset [OF assms])
  then have s: "set (filteredData data u) = set (filteredData data' u)" by (rule mset_eq_setD)
  have sz: "chartSizing w cw ch (sources (filteredData data u) cs) (targets (filteredData data u) ct) =
        chartSizing w cw ch (sources (filteredData data' u) cs) (targets (filteredData data' u) ct)"
    by (rule chartSizing_cong)
       (simp_all add: set_sources_cong [OF s] set_targets_cong [OF s] distinct_sources distinct_targets)
  show ?thesis
    unfolding renderLayout_def Let_def sz aggregate_mset [OF assms] ..
qed

section \<open>Timers that the ref does not track\<close>

lemma map_of_filter_other:
  "h \<noteq> h' \<Longrightarrow> map_of (filter (\<lambda>p. fst p \<noteq> h') ps) h = map_of ps h"
  by (induction ps) auto

lemma map_of_append_fresh:
  "h \<noteq> h' \<Longrightarrow> map_of (ps @ [(h', cb)]) h = map_of ps h"
  by (induction ps) auto

lemma switch_queues_untracked_restart:
  assumes "running (anim st)" "\<not> isPaused (anim st)"
  shows "pending (runCallback (NextTargetTimer env opts) st) =
           pending st @ [(nextHandle st, RestartTimer env)]"
    and "timer (anim (runCallback (NextTargetTimer env opts) st)) = timer (anim st)"
    and "pending (runCallback (NextSourceTimer env) st) =
           pending st @ [(nextHandle st, RestartTimer env)]"
    and "timer (anim (runCallback (NextSourceTimer env) st)) = timer (anim st)"
  using assms by (simp_all add: setTimeout_def Let_def)

lemma stop_keeps_untracked:
  "timer (anim st) \<noteq> Some h \<Longrightarrow>
   map_of (pending (stopSequencer st)) h = map_of (pending st) h"
  by (cases "timer (anim st)")
     (simp_all add: stopSequencer_def clearTrackedTimer_def clearTimeout_def Let_def map_of_filter_other)

lemma clearTracked_keeps:
  "timer (anim st) \<noteq> Some h \<Longrightarrow>
   map_of (pending (clearTrackedTimer st)) h = map_of (pending st) h"
  by (cases "timer (anim st)")
     (simp_all add: clearTrackedTimer_def clearTimeout_def map_of_filter_other)

lemma trackTimeout_keeps:
  "h < nextHandle st \<Longrightarrow> map_of (pending (trackTimeout cb st)) h = map_of (pending st) h"
  using map_of_append_fresh [of h "nextHandle st" "pending st" cb]
  by (simp only: trackTimeout_fields)

lemma clearTracked_more:
  "nextHandle (clearTrackedTimer st) = nextHandle st"
  "timer (anim (clearTrackedTimer st)) = None"
  by (simp_all add: clearTrackedTimer_def clearTimeout_def split: option.splits)

lemma animate_keeps_untracked:
  assumes "timer (anim st) \<noteq> Some h" "h < nextHandle st"
  shows "map_of (pending (animate env st)) h = map_of (pending st) h"
  using assms
  by (simp add: animate_def Let_def trackTimeout_keeps clearTracked_keeps clearTracked_more)

lemma start_keeps_untracked:
  assumes "timer (anim st) \<noteq> Some h" "h < nextHandle st"
  shows "map_of (pending (startSequencer env st)) h = map_of (pending st) h"
proof (cases "running (anim st)")
  case True
  let ?s = "clearTrackedTimer st"
  let ?st2 = "?s\<lparr>anim := (anim ?s)\<lparr>running := False, running := True, currentSourceIndex := 0,
       currentTargetIndex := 0, cycleCount := 0\<rparr>\<rparr>"
  have "map_of (pending (animate env ?st2)) h = map_of (pending ?st2) h"
    by (rule animate_keeps_untracked) (use assms in \<open>simp_all add: clearTracked_more\<close>)
  then show ?thesis
    using True assms(1) by (simp add: startSequencer_def Let_def clearTracked_keeps)
next
  case False
  let ?st2 = "st\<lparr>anim := (anim st)\<lparr>running := True, currentSourceIndex := 0,
       currentTargetIndex := 0, cycleCount := 0\<rparr>\<rparr>"
  have "map_of (pending (animate env ?st2)) h = map_of (pending ?st2) h"
    by (rule animate_keeps_untracked) (use assms in simp_all)
  then show ?thesis
    using False by (simp add: startSequencer_def Let_def)
qed

lemma stale_restart_mutates:
  assumes "map_of (pending st) h = Some (RestartTimer env)"
    and "running (anim st)" "\<not> isPaused (anim st)" "0 < closureDataLength env"
    and "cycleCount (anim st) \<le> 1000"
  shows "cycleCount (anim (fire h st)) = cycleCount (anim st) + 1"
proof -
  have "fire h st = animate env (clearTimeout h st)"
    using assms(1-3) by (simp add: fire_found clearTimeout_fields)
  then show ?thesis
    using assms(2-5)
    by (simp add: animate_def Let_def clearTimeout_fields trackTimeout_fields clearTracked_fields
        clearTimeout_def)
qed

section \<open>Bucketing\<close>

text \<open>
  C3. The years normalizer is total (it returns one of the five labels for every
  value, so it never throws), it sends 0 and 5 to 0-5, 6 to 6-10, 20 to 16-20 and 21 to
  20+, every finite number to the bucket whose closed upper breakpoint 5, 10, 15, 20 is
  the first one not below it, and every negative number, NaN and every non-number to
  the first bucket 0-5.
\<close>

theorem getValidYearsCategory_buckets:
  "getValidYearsCategory (JNum (Fin 0)) = ''0-5'' \<and>
   getValidYearsCategory (JNum (Fin 5)) = ''0-5'' \<and>
   getValidYearsCategory (JNum (Fin 6)) = ''6-10'' \<and>
   getValidYearsCategory (JNum (Fin 20)) = ''16-20'' \<and>
   getValidYearsCategory (JNum (Fin 21)) = ''20+'' \<and>
   getValidYearsCategory (JNum (Fin (- 3))) = ''0-5'' \<and>
   getValidYearsCategory (JNum NaN) = ''0-5'' \<and>
   getValidYearsCategory (JNum NegInf) = ''0-5'' \<and>
   (x < 0 \<longrightarrow> getValidYearsCategory (JNum (Fin x)) = ''0-5'') \<and>
   (0 \<le> x \<and> x \<le> 5 \<longrightarrow> getValidYearsCategory (JNum (Fin x)) = ''0-5'') \<and>
   (5 < x \<and> x \<le> 10 \<longrightarrow> getValidYearsCategory (JNum (Fin x)) = ''6-10'') \<and>
   (10 < x \<and> x \<le> 15 \<longrightarrow> getValidYearsCategory (JNum (Fin x)) = ''11-15'') \<and>
   (15 < x \<and> x \<le> 20 \<longrightarrow> getValidYearsCategory (JNum (Fin x)) = ''16-20'') \<and>
   (20 < x \<longrightarrow> getValidYearsCategory (JNum (Fin x)) = ''20+'') \<and>
   (\<not> typeof_number v \<longrightarrow> getValidYearsCategory v = ''0-5'') \<and>
   getValidYearsCategory v \<in> set YEARS_CATEGORIES"
proof -
  have total: "getValidYearsCategory v \<in> set YEARS_CATEGORIES"
    by (cases v) (simp_all add: YEARS_CATEGORIES_def)
  have nonnum: "\<not> typeof_number v \<longrightarrow> getValidYearsCategory v = ''0-5''"
    by (cases v) simp_all
  from total nonnum show ?thesis by simp
qed

theorem getValidYearsCategory_buckets_witness:
  "(- 3 :: real) < 0 \<and> getValidYearsCategory (JNum (Fin (- 3))) = ''0-5'' \<and>
   (0 :: real) \<le> 4 \<and> (4 :: real) \<le> 5 \<and> getValidYearsCategory (JNum (Fin 4)) = ''0-5'' \<and>
   (5 :: real) < 6 \<and> (6 :: real) \<le> 10 \<and> getValidYearsCategory (JNum (Fin 6)) = ''6-10'' \<and>
   (10 :: real) < 11 \<and> (11 :: real) \<le> 15 \<and> getValidYearsCategory (JNum (Fin 11)) = ''11-15'' \<and>
   (15 :: real) < 16 \<and> (16 :: real) \<le> 20 \<and> getValidYearsCategory (JNum (Fin 16)) = ''16-20'' \<and>
   (20 :: real) < 21 \<and> getValidYearsCategory (JNum (Fin 21)) = ''20+'' \<and>
   \<not> typeof_number JNull \<and> getValidYearsCategory JNull = ''0-5''"
  using getValidYearsCategory_buckets [of "- 3" JNull]
    getValidYearsCategory_buckets [of 4 JNull]
    getValidYearsCategory_buckets [of 6 JNull]
    getValidYearsCategory_buckets [of 11 JNull]
    getValidYearsCategory_buckets [of 16 JNull]
    getValidYearsCategory_buckets [of 21 JNull]
  by simp

section \<open>Conservation of flow\<close>

text \<open>
  C1, as the code has it.  An unmatched pair of labels carries the weight 0.0001 and a
  row whose source or target value is not a node label is filed under no link, so the
  link weights do not add up to the number of rows left by the test-data filter.  What is
  conserved is the weight of the real (non-dummy) links: provided distinct pairs of
  labels have distinct map keys, it is the number of valid rows whose two values are
  node labels, and for every source node and every target node the real weight of its
  links is the number of those rows that carry its label.
\<close>

theorem conservation_of_counted_rows:
  assumes "keysDistinct cs ct (sortedSources (filteredData data useTestData) cs)
             (sortedTargets (filteredData data useTestData) ct)"
  shows "(let fd = filteredData data useTestData;
              ss = sortedSources fd cs;
              ts = sortedTargets fd ct;
              links = alluvialLinks g fd cs ct;
              rows = validData fd cs ct
          in sum_list (map realValue links) = of_nat (length (filter (counted g cs ct ss ts) rows)) \<and>
             (\<forall>s\<in>set ss.
                sum_list (map realValue (filter (\<lambda>l. source l = nodeId cs s) links)) =
                of_nat (length (filter (\<lambda>d. sourceAccessor g cs d = JStr s \<and>
                                           js_includes ts (targetAccessor g ct d)) rows))) \<and>
             (\<forall>t\<in>set ts.
                sum_list (map realValue (filter (\<lambda>l. target l = nodeId ct t) links)) =
                of_nat (length (filter (\<lambda>d. js_includes ss (sourceAccessor g cs d) \<and>
                                           targetAccessor g ct d = JStr t) rows))))"
proof -
  let ?fd = "filteredData data useTestData"
  have src: "sum_list (map realValue (filter (\<lambda>l. source l = nodeId cs s) (alluvialLinks g ?fd cs ct))) =
      of_nat (length (filter (\<lambda>d. sourceAccessor g cs d = JStr s \<and>
                 js_includes (sortedTargets ?fd ct) (targetAccessor g ct d)) (validData ?fd cs ct)))"
    if "s \<in> set (sortedSources ?fd cs)" for s
    unfolding alluvialLinks_def Let_def
    by (rule source_sum [OF assms distinct_sortedSources distinct_sortedTargets that])
  have tgt: "sum_list (map realValue (filter (\<lambda>l. target l = nodeId ct t) (alluvialLinks g ?fd cs ct))) =
      of_nat (length (filter (\<lambda>d. js_includes (sortedSources ?fd cs) (sourceAccessor g cs d) \<and>
                 targetAccessor g ct d = JStr t) (validData ?fd cs ct)))"
    if "t \<in> set (sortedTargets ?fd ct)" for t
    unfolding alluvialLinks_def Let_def
    by (rule target_sum [OF assms distinct_sortedSources distinct_sortedTargets that])
  show ?thesis
    unfolding Let_def using alluvialLinks_total [of g ?fd cs ct] src tgt by blast
qed

theorem conservation_of_counted_rows_witness:
  "keysDistinct learning_style motivation
     (sortedSources (filteredData threeRows False) learning_style)
     (sortedTargets (filteredData threeRows False) motivation) \<and>
   ''auditory'' \<in> set (sortedSources (filteredData threeRows False) learning_style) \<and>
   ''growth'' \<in> set (sortedTargets (filteredData threeRows False) motivation) \<and>
   sum_list (map realValue
     (alluvialLinks yearsLabel (filteredData threeRows False) learning_style motivation)) = 2 \<and>
   sum_list (map realValue (filter (\<lambda>l. source l = nodeId learning_style ''auditory'')
     (alluvialLinks yearsLabel (filteredData threeRows False) learning_style motivation))) = 1 \<and>
   sum_list (map realValue (filter (\<lambda>l. target l = nodeId motivation ''growth'')
     (alluvialLinks yearsLabel (filteredData threeRows False) learning_style motivation))) = 1"
proof -
  let ?fd = "filteredData threeRows False"
  let ?ss = "sortedSources ?fd learning_style"
  let ?ts = "sortedTargets ?fd motivation"
  let ?rows = "validData ?fd learning_style motivation"
  have kd: "keysDistinct learning_style motivation ?ss ?ts" by code_simp
  have s: "''auditory'' \<in> set ?ss" by code_simp
  have t: "''growth'' \<in> set ?ts" by code_simp
  have c: "length (filter (counted yearsLabel learning_style motivation ?ss ?ts) ?rows) = 2"
    by code_simp
  have cs: "length (filter (\<lambda>d. sourceAccessor yearsLabel learning_style d = JStr ''auditory'' \<and>
       js_includes ?ts (targetAccessor yearsLabel motivation d)) ?rows) = 1" by code_simp
  have ct: "length (filter (\<lambda>d. js_includes ?ss (sourceAccessor yearsLabel learning_style d) \<and>
       targetAccessor yearsLabel motivation d = JStr ''growth'') ?rows) = 1" by code_simp
  from conservation_of_counted_rows [OF kd, of yearsLabel] s t c cs ct kd
  show ?thesis unfolding Let_def by simp
qed

text \<open>
  The claim as it is written fails on three rows, the third with a null target value:
  three rows pass the test-data filter, the link weights add up to 2.0002 and the real
  links to 2.
\<close>

theorem edge_sum_counterexample:
  "length (filteredData threeRows False) = 3 \<and>
   sum_list (map val
     (alluvialLinks yearsLabel (filteredData threeRows False) learning_style motivation)) = 2.0002 \<and>
   sum_list (map realValue
     (alluvialLinks yearsLabel (filteredData threeRows False) learning_style motivation)) = 2"
  by code_simp

section \<open>The end-to-end scenario\<close>

text \<open>
  C2, as the code has it.  On the ten rows of the scenario, with any
  \<^verbatim>\<open>getYearsCategory\<close> that buckets 2, 7, 12 and 22 as the normalizer does, the source
  nodes are 0-5, 6-10, 11-15 and 20+ (there is no 16-20 node), the target nodes are
  auditory, kinesthetic and visual (there is no reading_writing node), the twelve links
  are the ones listed, five of them dummies of weight 0.0001, the edge from 20+ to
  visual has weight 2, and the real weights of the nodes are 2, 3, 1, 4 on the source
  side and 3, 1, 6 on the target side.
\<close>

theorem end_to_end_scenario:
  assumes "g (JNum (Fin 2)) = JStr ''0-5''" and "g (JNum (Fin 7)) = JStr ''6-10''"
    and "g (JNum (Fin 12)) = JStr ''11-15''" and "g (JNum (Fin 22)) = JStr ''20+''"
  shows "sortedSources (filteredData scenario False) years_at_medtronic =
           [''0-5'', ''6-10'', ''11-15'', ''20+''] \<and>
         sortedTargets (filteredData scenario False) learning_style =
           [''auditory'', ''kinesthetic'', ''visual''] \<and>
         alluvialLinks g (filteredData scenario False) years_at_medtronic learning_style =
           [\<lparr>source = ''years_at_medtronic:0-5'', target = ''learning_style:auditory'', val = 0.0001, isDummy = True\<rparr>,
            \<lparr>source = ''years_at_medtronic:0-5'', target = ''learning_style:kinesthetic'', val = 0.0001, isDummy = True\<rparr>,
            \<lparr>source = ''years_at_medtronic:0-5'', target = ''learning_style:visual'', val = 2, isDummy = False\<rparr>,
            \<lparr>source = ''years_at_medtronic:6-10'', target = ''learning_style:auditory'', val = 2, isDummy = False\<rparr>,
            \<lparr>source = ''years_at_medtronic:6-10'', target = ''learning_style:kinesthetic'', val = 0.0001, isDummy = True\<rparr>,
            \<lparr>source = ''years_at_medtronic:6-10'', target = ''learning_style:visual'', val = 1, isDummy = False\<rparr>,
            \<lparr>source = ''years_at_medtronic:11-15'', target = ''learning_style:auditory'', val = 0.0001, isDummy = True\<rparr>,
            \<lparr>source = ''years_at_medtronic:11-15'', target = ''learning_style:kinesthetic'', val = 0.0001, isDummy = True\<rparr>,
            \<lparr>source = ''years_at_medtronic:11-15'', target = ''learning_style:visual'', val = 1, isDummy = False\<rparr>,
            \<lparr>source = ''years_at_medtronic:20+'', target = ''learning_style:auditory'', val = 1, isDummy = False\<rparr>,
            \<lparr>source = ''years_at_medtronic:20+'', target = ''learning_style:kinesthetic'', val = 1, isDummy = False\<rparr>,
            \<lparr>source = ''years_at_medtronic:20+'', target = ''learning_style:visual'', val = 2, isDummy = False\<rparr>] \<and>
         map (\<lambda>s. sum_list (map realValue (filter (\<lambda>l. source l = nodeId years_at_medtronic s)
                (alluvialLinks g (filteredData scenario False) years_at_medtronic learning_style))))
           [''0-5'', ''6-10'', ''11-15'', ''20+''] = [2, 3, 1, 4] \<and>
         map (\<lambda>t. sum_list (map realValue (filter (\<lambda>l. target l = nodeId learning_style t)
                (alluvialLinks g (filteredData scenario False) years_at_medtronic learning_style))))
           [''auditory'', ''kinesthetic'', ''visual''] = [3, 1, 6]"
proof -
  have src: "sourceAccessor g years_at_medtronic d = sourceAccessor yearsLabel years_at_medtronic d"
    if "d \<in> set (filteredData scenario False)" for d
    using that assms
    by (auto simp: filteredData_def scenario_def yearsStyleRow_def sourceAccessor_def getProp_def
        js_or_def yearsLabel_def years_at_medtronic_def)
  have tgt: "targetAccessor g learning_style d = targetAccessor yearsLabel learning_style d" for d
    by (simp add: targetAccessor_def learning_style_def years_at_medtronic_def)
  have eq: "alluvialLinks g (filteredData scenario False) years_at_medtronic learning_style =
      alluvialLinks yearsLabel (filteredData scenario False) years_at_medtronic learning_style"
    by (rule alluvialLinks_cong) (simp_all add: src tgt)
  have ss: "sortedSources (filteredData scenario False) years_at_medtronic =
           [''0-5'', ''6-10'', ''11-15'', ''20+'']" by code_simp
  have ts: "sortedTargets (filteredData scenario False) learning_style =
           [''auditory'', ''kinesthetic'', ''visual'']" by code_simp
  have links: "alluvialLinks yearsLabel (filteredData scenario False) years_at_medtronic learning_style =
           [\<lparr>source = ''years_at_medtronic:0-5'', target = ''learning_style:auditory'', val = 0.0001, isDummy = True\<rparr>,
            \<lparr>source = ''years_at_medtronic:0-5'', target = ''learning_style:kinesthetic'', val = 0.0001, isDummy = True\<rparr>,
            \<lparr>source = ''years_at_medtronic:0-5'', target = ''learning_style:visual'', val = 2, isDummy = False\<rparr>,
            \<lparr>source = ''years_at_medtronic:6-10'', target = ''learning_style:auditory'', val = 2, isDummy = False\<rparr>,
            \<lparr>source = ''years_at_medtronic:6-10'', target = ''learning_style:kinesthetic'', val = 0.0001, isDummy = True\<rparr>,
            \<lparr>source = ''years_at_medtronic:6-10'', target = ''learning_style:visual'', val = 1, isDummy = False\<rparr>,
            \<lparr>source = ''years_at_medtronic:11-15'', target = ''learning_style:auditory'', val = 0.0001, isDummy = True\<rparr>,
            \<lparr>source = ''years_at_medtronic:11-15'', target = ''learning_style:kinesthetic'', val = 0.0001, isDummy = True\<rparr>,
            \<lparr>source = ''years_at_medtronic:11-15'', target = ''learning_style:visual'', val = 1, isDummy = False\<rparr>,
            \<lparr>source = ''years_at_medtronic:20+'', target = ''learning_style:auditory'', val = 1, isDummy = False\<rparr>,
            \<lparr>source = ''years_at_medtronic:20+'', target = ''learning_style:kinesthetic'', val = 1, isDummy = False\<rparr>,
            \<lparr>source = ''years_at_medtronic:20+'', target = ''learning_style:visual'', val = 2, isDummy = False\<rparr>]"
    by code_simp
  have rows: "map (\<lambda>s. sum_list (map realValue (filter (\<lambda>l. source l = nodeId years_at_medtronic s)
                (alluvialLinks yearsLabel (filteredData scenario False) years_at_medtronic learning_style))))
           [''0-5'', ''6-10'', ''11-15'', ''20+''] = [2, 3, 1, 4]" by code_simp
  have cols: "map (\<lambda>t. sum_list (map realValue (filter (\<lambda>l. target l = nodeId learning_style t)
                (alluvialLinks yearsLabel (filteredData scenario False) years_at_medtronic learning_style))))
           [''auditory'', ''kinesthetic'', ''visual''] = [3, 1, 6]" by code_simp
  show ?thesis unfolding eq by (intro conjI) (fact ss ts links rows cols)+
qed

theorem end_to_end_scenario_witness:
  "yearsLabel (JNum (Fin 2)) = JStr ''0-5'' \<and> yearsLabel (JNum (Fin 7)) = JStr ''6-10'' \<and>
   yearsLabel (JNum (Fin 12)) = JStr ''11-15'' \<and> yearsLabel (JNum (Fin 22)) = JStr ''20+'' \<and>
   sortedSources (filteredData scenario False) years_at_medtronic =
     [''0-5'', ''6-10'', ''11-15'', ''20+''] \<and>
   sortedTargets (filteredData scenario False) learning_style =
     [''auditory'', ''kinesthetic'', ''visual''] \<and>
   map (\<lambda>s. sum_list (map realValue (filter (\<lambda>l. source l = nodeId years_at_medtronic s)
          (alluvialLinks yearsLabel (filteredData scenario False) years_at_medtronic learning_style))))
     [''0-5'', ''6-10'', ''11-15'', ''20+''] = [2, 3, 1, 4]"
proof -
  have a: "yearsLabel (JNum (Fin 2)) = JStr ''0-5''" by code_simp
  have b: "yearsLabel (JNum (Fin 7)) = JStr ''6-10''" by code_simp
  have c: "yearsLabel (JNum (Fin 12)) = JStr ''11-15''" by code_simp
  have d: "yearsLabel (JNum (Fin 22)) = JStr ''20+''" by code_simp
  note inst = end_to_end_scenario [OF a b c d]
  show ?thesis
    by (intro conjI) (fact a b c d inst [THEN conjunct1] inst [THEN conjunct2, THEN conjunct1]
        inst [THEN conjunct2, THEN conjunct2, THEN conjunct2, THEN conjunct1])+
qed

text \<open>
  The scenario as the claim words it fails: 16-20 and reading_writing are no nodes, and
  the edge from 20+ to visual, the last of the twelve links, has weight 2, not 4.
\<close>

theorem end_to_end_scenario_counterexample:
  "''16-20'' \<notin> set (sortedSources (filteredData scenario False) years_at_medtronic) \<and>
   ''reading_writing'' \<notin> set (sortedTargets (filteredData scenario False) learning_style) \<and>
   alluvialLinks yearsLabel (filteredData scenario False) years_at_medtronic learning_style ! 11 =
     \<lparr>source = ''years_at_medtronic:20+'', target = ''learning_style:visual'', val = 2, isDummy = False\<rparr> \<and>
   length (alluvialLinks yearsLabel (filteredData scenario False) years_at_medtronic learning_style) = 12"
  by code_simp

section \<open>The cross product\<close>

text \<open>
  C4, as the code has it.  Provided distinct pairs of labels have distinct map keys,
  the links are exactly one per pair of a source node and a target node, in node order,
  none dropped; a pair that no valid row has as its values (valid: the years value is
  not null when the years field is selected) is kept as a dummy link of weight 0.0001.
  The nodes are the labels observed in the rows (the non-empty strings of a categorical
  field, the buckets that some row falls into for the years field), not a declared
  catalog.
\<close>

theorem cross_product_of_observed_labels:
  assumes "keysDistinct cs ct (sortedSources fd cs) (sortedTargets fd ct)"
  shows "map (\<lambda>l. (source l, target l)) (alluvialLinks g fd cs ct) =
           map (\<lambda>p. (nodeId cs (fst p), nodeId ct (snd p)))
             (List.product (sortedSources fd cs) (sortedTargets fd ct)) \<and>
         distinct (map (\<lambda>l. (source l, target l)) (alluvialLinks g fd cs ct)) \<and>
         length (alluvialLinks g fd cs ct) =
           length (sortedSources fd cs) * length (sortedTargets fd ct) \<and>
         (\<forall>s\<in>set (sortedSources fd cs). \<forall>t\<in>set (sortedTargets fd ct).
            matchCount g cs ct (validData fd cs ct) s t = 0 \<longrightarrow>
            \<lparr>source = nodeId cs s, target = nodeId ct t, val = 0.0001, isDummy = True\<rparr>
              \<in> set (alluvialLinks g fd cs ct)) \<and>
         (\<forall>l\<in>set (alluvialLinks g fd cs ct). isDummy l \<longrightarrow> val l = 0.0001) \<and>
         (cs \<noteq> years_at_medtronic \<longrightarrow>
            (\<forall>s. s \<in> set (sortedSources fd cs) \<longleftrightarrow>
                 s \<noteq> [] \<and> (\<exists>d\<in>set fd. getProp d cs = JStr s))) \<and>
         (ct \<noteq> years_at_medtronic \<longrightarrow>
            (\<forall>t. t \<in> set (sortedTargets fd ct) \<longleftrightarrow>
                 t \<noteq> [] \<and> (\<exists>d\<in>set fd. getProp d ct = JStr t))) \<and>
         (cs = years_at_medtronic \<longrightarrow>
            sortedSources fd cs = filter (\<lambda>c. c \<in> validYearsOf ` set fd) YEARS_CATEGORIES) \<and>
         (ct = years_at_medtronic \<longrightarrow>
            sortedTargets fd ct = filter (\<lambda>c. c \<in> validYearsOf ` set fd) YEARS_CATEGORIES)"
proof -
  let ?P = "List.product (sortedSources fd cs) (sortedTargets fd ct)"
  let ?I = "\<lambda>p. (nodeId cs (fst p), nodeId ct (snd p))"
  let ?F = "\<lambda>p. finalLink cs ct (fst p) (snd p) (matchCount g cs ct (validData fd cs ct) (fst p) (snd p))"
  have links: "alluvialLinks g fd cs ct = map ?F ?P"
    by (rule alluvialLinks_char [OF assms])
  have ids: "map (\<lambda>l. (source l, target l)) (alluvialLinks g fd cs ct) = map ?I ?P"
    by (simp add: links comp_def finalLink_def)
  have "inj ?I" by (rule injI) (simp add: nodeId_inj prod_eq_iff)
  then have "inj_on ?I (set ?P)" by (rule inj_on_subset) simp
  moreover have "distinct ?P"
    by (rule distinct_product [OF distinct_sortedSources distinct_sortedTargets])
  ultimately have dist: "distinct (map ?I ?P)" by (simp add: distinct_map)
  have len: "length (alluvialLinks g fd cs ct) =
      length (sortedSources fd cs) * length (sortedTargets fd ct)"
    by (simp add: links)
  have kept: "\<lparr>source = nodeId cs s, target = nodeId ct t, val = 0.0001, isDummy = True\<rparr>
      \<in> set (alluvialLinks g fd cs ct)"
    if "s \<in> set (sortedSources fd cs)" "t \<in> set (sortedTargets fd ct)"
      "matchCount g cs ct (validData fd cs ct) s t = 0" for s t
  proof -
    from that(1,2) have "?F (s, t) \<in> set (alluvialLinks g fd cs ct)"
      unfolding links by (simp add: image_iff) (metis fst_conv snd_conv)
    with that(3) show ?thesis by (simp add: finalLink_def)
  qed
  have dummy: "\<forall>l\<in>set (alluvialLinks g fd cs ct). isDummy l \<longrightarrow> val l = 0.0001"
    by (auto simp: links finalLink_def)
  have cat_s: "cs \<noteq> years_at_medtronic \<longrightarrow>
            (\<forall>s. s \<in> set (sortedSources fd cs) \<longleftrightarrow>
                 s \<noteq> [] \<and> (\<exists>d\<in>set fd. getProp d cs = JStr s))"
    by (simp add: set_sortedSources_cat)
  have cat_t: "ct \<noteq> years_at_medtronic \<longrightarrow>
            (\<forall>t. t \<in> set (sortedTargets fd ct) \<longleftrightarrow>
                 t \<noteq> [] \<and> (\<exists>d\<in>set fd. getProp d ct = JStr t))"
    by (simp add: set_sortedTargets_cat)
  have yr_s: "cs = years_at_medtronic \<longrightarrow>
            sortedSources fd cs = filter (\<lambda>c. c \<in> validYearsOf ` set fd) YEARS_CATEGORIES"
    by (simp add: sortedSources_years)
  have yr_t: "ct = years_at_medtronic \<longrightarrow>
            sortedTargets fd ct = filter (\<lambda>c. c \<in> validYearsOf ` set fd) YEARS_CATEGORIES"
    by (simp add: sortedTargets_years)
  from kept have kept': "\<forall>s\<in>set (sortedSources fd cs). \<forall>t\<in>set (sortedTargets fd ct).
            matchCount g cs ct (validData fd cs ct) s t = 0 \<longrightarrow>
            \<lparr>source = nodeId cs s, target = nodeId ct t, val = 0.0001, isDummy = True\<rparr>
              \<in> set (alluvialLinks g fd cs ct)" by blast
  show ?thesis by (intro conjI) (fact ids dist [folded ids] len kept' dummy cat_s cat_t yr_s yr_t)+
qed

theorem cross_product_of_observed_labels_witness:
  "keysDistinct learning_style motivation
     (sortedSources (filteredData threeRows False) learning_style)
     (sortedTargets (filteredData threeRows False) motivation) \<and>
   learning_style \<noteq> years_at_medtronic \<and> motivation \<noteq> years_at_medtronic \<and>
   map (\<lambda>l. (source l, target l))
     (alluvialLinks yearsLabel (filteredData threeRows False) learning_style motivation) =
     [(''learning_style:auditory'', ''motivation:growth''),
      (''learning_style:auditory'', ''motivation:impact''),
      (''learning_style:visual'', ''motivation:growth''),
      (''learning_style:visual'', ''motivation:impact'')] \<and>
   length (alluvialLinks yearsLabel (filteredData threeRows False) learning_style motivation) = 4 \<and>
   ''visual'' \<in> set (sortedSources (filteredData threeRows False) learning_style) \<and>
   ''growth'' \<in> set (sortedTargets (filteredData threeRows False) motivation) \<and>
   matchCount yearsLabel learning_style motivation
     (validData (filteredData threeRows False) learning_style motivation) ''visual'' ''growth'' = 0 \<and>
   \<lparr>source = ''learning_style:visual'', target = ''motivation:growth'', val = 0.0001, isDummy = True\<rparr>
     \<in> set (alluvialLinks yearsLabel (filteredData threeRows False) learning_style motivation) \<and>
   ''recognition'' \<notin> set (sortedTargets (filteredData threeRows False) motivation)"
proof -
  let ?fd = "filteredData threeRows False"
  have kd: "keysDistinct learning_style motivation
     (sortedSources ?fd learning_style) (sortedTargets ?fd motivation)" by code_simp
  have ne: "learning_style \<noteq> years_at_medtronic" "motivation \<noteq> years_at_medtronic" by code_simp+
  have p: "map (\<lambda>p. (nodeId learning_style (fst p), nodeId motivation (snd p)))
      (List.product (sortedSources ?fd learning_style) (sortedTargets ?fd motivation)) =
     [(''learning_style:auditory'', ''motivation:growth''),
      (''learning_style:auditory'', ''motivation:impact''),
      (''learning_style:visual'', ''motivation:growth''),
      (''learning_style:visual'', ''motivation:impact'')]" by code_simp
  have l: "length (sortedSources ?fd learning_style) * length (sortedTargets ?fd motivation) = 4"
    by code_simp
  have r: "\<not> (\<exists>d\<in>set ?fd. getProp d motivation = JStr ''recognition'')" by code_simp
  have s: "''visual'' \<in> set (sortedSources ?fd learning_style)" by code_simp
  have t: "''growth'' \<in> set (sortedTargets ?fd motivation)" by code_simp
  have n: "matchCount yearsLabel learning_style motivation
     (validData ?fd learning_style motivation) ''visual'' ''growth'' = 0" by code_simp
  have i1: "nodeId learning_style ''visual'' = ''learning_style:visual''" by code_simp
  have i2: "nodeId motivation ''growth'' = ''motivation:growth''" by code_simp
  note inst = cross_product_of_observed_labels [OF kd, of yearsLabel]
  note c1 = inst [THEN conjunct1]
  note c3 = inst [THEN conjunct2, THEN conjunct2, THEN conjunct1]
  note c4 = inst [THEN conjunct2, THEN conjunct2, THEN conjunct2, THEN conjunct1]
  note c7 = inst [THEN conjunct2, THEN conjunct2, THEN conjunct2, THEN conjunct2,
      THEN conjunct2, THEN conjunct2, THEN conjunct1]
  have ids: "map (\<lambda>l. (source l, target l)) (alluvialLinks yearsLabel ?fd learning_style motivation) =
     [(''learning_style:auditory'', ''motivation:growth''),
      (''learning_style:auditory'', ''motivation:impact''),
      (''learning_style:visual'', ''motivation:growth''),
      (''learning_style:visual'', ''motivation:impact'')]"
    using c1 by (simp only: p)
  have len: "length (alluvialLinks yearsLabel ?fd learning_style motivation) = 4"
    using c3 by (simp only: l)
  have kept: "\<lparr>source = ''learning_style:visual'', target = ''motivation:growth'', val = 0.0001, isDummy = True\<rparr>
     \<in> set (alluvialLinks yearsLabel ?fd learning_style motivation)"
    using c4 [rule_format, OF s t n] by (simp only: i1 i2)
  have rec: "''recognition'' \<notin> set (sortedTargets ?fd motivation)"
    using c7 [rule_format, OF ne(2), of "''recognition''"] r by blast
  show ?thesis by (intro conjI) (fact kd ne ids len s t n kept rec)+
qed

text \<open>
  The claim as it is written fails on the three rows: the catalogs of the two fields
  span twenty pairs, the links are four, and the two unmatched ones weigh 0.0001, not 0.
\<close>

theorem catalog_cross_product_counterexample:
  "alluvialLinks yearsLabel (filteredData threeRows False) learning_style motivation =
     [\<lparr>source = ''learning_style:auditory'', target = ''motivation:growth'', val = 1, isDummy = False\<rparr>,
      \<lparr>source = ''learning_style:auditory'', target = ''motivation:impact'', val = 0.0001, isDummy = True\<rparr>,
      \<lparr>source = ''learning_style:visual'', target = ''motivation:growth'', val = 0.0001, isDummy = True\<rparr>,
      \<lparr>source = ''learning_style:visual'', target = ''motivation:impact'', val = 1, isDummy = False\<rparr>] \<and>
   length (List.product learningStyleCatalog motivationCatalog) = 20"
  by code_simp

section \<open>Rows with a missing value\<close>

text \<open>
  C5, as the code has it.  The alluvial aggregation has no Unknown label.  A row whose
  selected categorical field is undefined or null is filed under no link (the fill step
  returns the map unchanged) and so counted nowhere; Unknown is a node only when some
  row holds that very string; and any row whose years value is null, whatever its other
  fields hold, is removed before the fill step when the years field is selected.
\<close>

theorem null_value_rows_are_dropped:
  "((cs \<noteq> years_at_medtronic \<and> (getProp d cs = JUndefined \<or> getProp d cs = JNull)) \<or>
    (ct \<noteq> years_at_medtronic \<and> (getProp d ct = JUndefined \<or> getProp d ct = JNull)) \<longrightarrow>
      fillLink g cs ct ss ts d m = m \<and> \<not> counted g cs ct ss ts d) \<and>
   (cs \<noteq> years_at_medtronic \<longrightarrow>
      (''Unknown'' \<in> set (sortedSources fd cs) \<longleftrightarrow>
         (\<exists>d'\<in>set fd. getProp d' cs = JStr ''Unknown''))) \<and>
   (ct \<noteq> years_at_medtronic \<longrightarrow>
      (''Unknown'' \<in> set (sortedTargets fd ct) \<longleftrightarrow>
         (\<exists>d'\<in>set fd. getProp d' ct = JStr ''Unknown''))) \<and>
   ((cs = years_at_medtronic \<or> ct = years_at_medtronic) \<and>
      getProp d years_at_medtronic = JNull \<longrightarrow> d \<notin> set (validData fd cs ct))"
proof -
  have skip: "fillLink g cs ct ss ts d m = m \<and> \<not> counted g cs ct ss ts d"
    if "(cs \<noteq> years_at_medtronic \<and> (getProp d cs = JUndefined \<or> getProp d cs = JNull)) \<or>
        (ct \<noteq> years_at_medtronic \<and> (getProp d ct = JUndefined \<or> getProp d ct = JNull))"
  proof -
    from that have no:
      "\<not> js_includes ss (sourceAccessor g cs d) \<or> \<not> js_includes ts (targetAccessor g ct d)"
      by (auto simp: sourceAccessor_def targetAccessor_def)
    then have "fillLink g cs ct ss ts d m = m" by (rule fillLink_skip)
    moreover from no have "\<not> counted g cs ct ss ts d" by (simp add: counted_def)
    ultimately show ?thesis by simp
  qed
  have us: "cs \<noteq> years_at_medtronic \<longrightarrow>
      (''Unknown'' \<in> set (sortedSources fd cs) \<longleftrightarrow>
         (\<exists>d'\<in>set fd. getProp d' cs = JStr ''Unknown''))"
    by (simp add: set_sortedSources_cat)
  have ut: "ct \<noteq> years_at_medtronic \<longrightarrow>
      (''Unknown'' \<in> set (sortedTargets fd ct) \<longleftrightarrow>
         (\<exists>d'\<in>set fd. getProp d' ct = JStr ''Unknown''))"
    by (simp add: set_sortedTargets_cat)
  have yr: "(cs = years_at_medtronic \<or> ct = years_at_medtronic) \<and>
            getProp d years_at_medtronic = JNull \<longrightarrow> d \<notin> set (validData fd cs ct)"
    by (auto simp: validData_def)
  from skip us ut yr show ?thesis by blast
qed

theorem null_value_rows_are_dropped_witness:
  "motivation \<noteq> years_at_medtronic \<and>
   getProp (styleMotivationRow (JStr ''auditory'') JNull) motivation = JNull \<and>
   fillLink yearsLabel learning_style motivation [''auditory'', ''visual''] [''growth'', ''impact'']
     (styleMotivationRow (JStr ''auditory'') JNull)
     (crossLinks learning_style motivation [''auditory'', ''visual''] [''growth'', ''impact'']) =
   crossLinks learning_style motivation [''auditory'', ''visual''] [''growth'', ''impact''] \<and>
   ''Unknown'' \<notin> set (sortedTargets (filteredData threeRows False) motivation) \<and>
   getProp (yearsStyleRow JNull (JStr ''visual'')) years_at_medtronic = JNull \<and>
   getProp (yearsStyleRow JNull (JStr ''visual'')) learning_style = JStr ''visual'' \<and>
   yearsStyleRow JNull (JStr ''visual'') \<in> set (filteredData nullYearsRows False) \<and>
   yearsStyleRow JNull (JStr ''visual'') \<notin>
     set (validData (filteredData nullYearsRows False) years_at_medtronic learning_style)"
proof -
  let ?d = "styleMotivationRow (JStr ''auditory'') JNull"
  let ?e = "yearsStyleRow JNull (JStr ''visual'')"
  have ne: "motivation \<noteq> years_at_medtronic" by code_simp
  have nl: "getProp ?d motivation = JNull" by code_simp
  have u: "\<not> (\<exists>d'\<in>set (filteredData threeRows False). getProp d' motivation = JStr ''Unknown'')"
    by code_simp
  have yn: "getProp ?e years_at_medtronic = JNull" by code_simp
  have yv: "getProp ?e learning_style = JStr ''visual''" by code_simp
  have mem: "?e \<in> set (filteredData nullYearsRows False)" by code_simp
  note a = null_value_rows_are_dropped [of learning_style ?d motivation yearsLabel
      "[''auditory'', ''visual'']" "[''growth'', ''impact'']"
      "crossLinks learning_style motivation [''auditory'', ''visual''] [''growth'', ''impact'']"
      "filteredData threeRows False"]
  note b = null_value_rows_are_dropped [of years_at_medtronic ?e learning_style yearsLabel
      "[]" "[]" "[]" "filteredData nullYearsRows False"]
  have f: "fillLink yearsLabel learning_style motivation [''auditory'', ''visual''] [''growth'', ''impact'']
     ?d (crossLinks learning_style motivation [''auditory'', ''visual''] [''growth'', ''impact'']) =
   crossLinks learning_style motivation [''auditory'', ''visual''] [''growth'', ''impact'']"
    using a ne nl by blast
  have k: "''Unknown'' \<notin> set (sortedTargets (filteredData threeRows False) motivation)"
    using a ne u by blast
  have v: "?e \<notin> set (validData (filteredData nullYearsRows False) years_at_medtronic learning_style)"
    using b yn by blast
  show ?thesis by (intro conjI) (fact ne nl f k yn yv mem v)+
qed

text \<open>
  The claim as it is written fails on the three rows: the third has a null motivation,
  the target nodes are growth and impact, no node is Unknown, and the links count two
  rows of the three.  The chord diagram does put Unknown among its categories for that
  row, and totals no row under it.
\<close>

theorem unknown_label_counterexample:
  "getProp (threeRows ! 2) motivation = JNull \<and>
   sortedSources (filteredData threeRows False) learning_style = [''auditory'', ''visual''] \<and>
   sortedTargets (filteredData threeRows False) motivation = [''growth'', ''impact''] \<and>
   map val (alluvialLinks yearsLabel (filteredData threeRows False) learning_style motivation) =
     [1, 0.0001, 0.0001, 1] \<and>
   length (filteredData threeRows False) = 3 \<and>
   JStr ''Unknown'' \<in> set (chordCategories yearsLabel (filteredData threeRows False) motivation) \<and>
   chordTotal yearsLabel (filteredData threeRows False) motivation (JStr ''Unknown'') = 0"
  by code_simp

section \<open>Determinism and node order\<close>

text \<open>
  C7.  The nodes and links, the chart size and the node padding depend on the rows only
  as a multiset: two arrivals of the same rows in any order give identical node order
  and identical links, and the layout, whatever function of its input the library
  computes, returns identical extents.  The nodes of the years field are in
  bucket order, the nodes of a categorical field are sorted by code units without
  repetition, the node list is the source nodes followed by the target nodes, and
  sorting a node list again changes nothing.
\<close>

theorem deterministic_node_order:
  "(mset data = mset data' \<longrightarrow>
      aggregate g data useTestData cs ct = aggregate g data' useTestData cs ct \<and>
      renderLayout sankeyGenerator measureTextWidth containerWidth containerHeight
        g data useTestData cs ct =
      renderLayout sankeyGenerator measureTextWidth containerWidth containerHeight
        g data' useTestData cs ct) \<and>
   sortedSources fd years_at_medtronic =
     filter (\<lambda>c. c \<in> validYearsOf ` set fd) YEARS_CATEGORIES \<and>
   sortedTargets fd years_at_medtronic =
     filter (\<lambda>c. c \<in> validYearsOf ` set fd) YEARS_CATEGORIES \<and>
   (cs \<noteq> years_at_medtronic \<longrightarrow> sorted (sortedSources fd cs) \<and> distinct (sortedSources fd cs)) \<and>
   (ct \<noteq> years_at_medtronic \<longrightarrow> sorted (sortedTargets fd ct) \<and> distinct (sortedTargets fd ct)) \<and>
   map name (alluvialNodes fd cs ct) = sortedSources fd cs @ sortedTargets fd ct \<and>
   sortNodes cs (sortedSources fd cs) = sortedSources fd cs \<and>
   sortNodes ct (sortedTargets fd ct) = sortedTargets fd ct"
proof -
  have a: "mset data = mset data' \<longrightarrow>
      aggregate g data useTestData cs ct = aggregate g data' useTestData cs ct \<and>
      renderLayout sankeyGenerator measureTextWidth containerWidth containerHeight
        g data useTestData cs ct =
      renderLayout sankeyGenerator measureTextWidth containerWidth containerHeight
        g data' useTestData cs ct"
    using aggregate_mset [of data data' g useTestData cs ct]
      renderLayout_mset [of data data' sankeyGenerator measureTextWidth containerWidth
        containerHeight g useTestData cs ct]
    by blast
  have b: "sortedSources fd years_at_medtronic =
     filter (\<lambda>c. c \<in> validYearsOf ` set fd) YEARS_CATEGORIES"
    by (rule sortedSources_years)
  have c: "sortedTargets fd years_at_medtronic =
     filter (\<lambda>c. c \<in> validYearsOf ` set fd) YEARS_CATEGORIES"
    by (rule sortedTargets_years)
  have d: "cs \<noteq> years_at_medtronic \<longrightarrow> sorted (sortedSources fd cs) \<and> distinct (sortedSources fd cs)"
    using sorted_sortedSources_cat [of cs fd] distinct_sortedSources [of fd cs] by blast
  have e: "ct \<noteq> years_at_medtronic \<longrightarrow> sorted (sortedTargets fd ct) \<and> distinct (sortedTargets fd ct)"
    using sorted_sortedTargets_cat [of ct fd] distinct_sortedTargets [of fd ct] by blast
  have f: "map name (alluvialNodes fd cs ct) = sortedSources fd cs @ sortedTargets fd ct"
    by (simp add: alluvialNodes_def comp_def)
  have h: "sortNodes cs (sortedSources fd cs) = sortedSources fd cs"
    unfolding sortedSources_def by (rule sortNodes_idem)
  have i: "sortNodes ct (sortedTargets fd ct) = sortedTargets fd ct"
    unfolding sortedTargets_def by (rule sortNodes_idem)
  show ?thesis by (intro conjI) (fact a b c d e f h i)+
qed

theorem deterministic_node_order_witness:
  "mset threeRows = mset (rev threeRows) \<and> threeRows \<noteq> rev threeRows \<and>
   aggregate yearsLabel threeRows False learning_style motivation =
   aggregate yearsLabel (rev threeRows) False learning_style motivation \<and>
   renderLayout frameOfInput labelLength 800 600 yearsLabel threeRows False learning_style motivation =
   renderLayout frameOfInput labelLength 800 600 yearsLabel (rev threeRows) False
     learning_style motivation \<and>
   learning_style \<noteq> years_at_medtronic \<and>
   sortedSources (filteredData threeRows False) learning_style = [''auditory'', ''visual''] \<and>
   sorted (sortedSources (filteredData threeRows False) learning_style)"
proof -
  have m: "mset threeRows = mset (rev threeRows)" by simp
  have d: "threeRows \<noteq> rev threeRows" by code_simp
  have ne: "learning_style \<noteq> years_at_medtronic" by code_simp
  have s: "sortedSources (filteredData threeRows False) learning_style = [''auditory'', ''visual'']"
    by code_simp
  note inst = deterministic_node_order [of threeRows "rev threeRows" yearsLabel False learning_style
      motivation frameOfInput labelLength 800 600 "filteredData threeRows False"]
  have agg: "aggregate yearsLabel threeRows False learning_style motivation =
     aggregate yearsLabel (rev threeRows) False learning_style motivation"
    using inst m by blast
  have lay: "renderLayout frameOfInput labelLength 800 600 yearsLabel threeRows False
       learning_style motivation =
     renderLayout frameOfInput labelLength 800 600 yearsLabel (rev threeRows) False
       learning_style motivation"
    using inst m by blast
  have srt: "sorted (sortedSources (filteredData threeRows False) learning_style)"
    using inst ne by blast
  show ?thesis by (intro conjI) (fact m d agg lay ne s srt)+
qed

section \<open>Dummy links\<close>

text \<open>
  C10, as the code has it.  Provided distinct pairs of labels have distinct map keys,
  every pair of a source node and a target node has exactly one link; when no valid row
  has that pair of values the link is a dummy of weight exactly 0.0001, and otherwise it
  is no dummy and its weight is the number of valid rows with that pair of values.  A
  row is valid when its years value is not null or the years field is not selected.
\<close>

theorem dummy_link_weight:
  assumes "keysDistinct cs ct (sortedSources fd cs) (sortedTargets fd ct)"
    and "s \<in> set (sortedSources fd cs)" and "t \<in> set (sortedTargets fd ct)"
  shows "\<exists>l\<in>set (alluvialLinks g fd cs ct).
           source l = nodeId cs s \<and> target l = nodeId ct t \<and>
           (\<forall>l'\<in>set (alluvialLinks g fd cs ct).
              source l' = nodeId cs s \<and> target l' = nodeId ct t \<longrightarrow> l' = l) \<and>
           (matchCount g cs ct (validData fd cs ct) s t = 0 \<longrightarrow> isDummy l \<and> val l = 0.0001) \<and>
           (0 < matchCount g cs ct (validData fd cs ct) s t \<longrightarrow>
              \<not> isDummy l \<and> val l = of_nat (matchCount g cs ct (validData fd cs ct) s t))"
proof -
  let ?F = "\<lambda>p. finalLink cs ct (fst p) (snd p) (matchCount g cs ct (validData fd cs ct) (fst p) (snd p))"
  have links: "alluvialLinks g fd cs ct = map ?F (List.product (sortedSources fd cs) (sortedTargets fd ct))"
    by (rule alluvialLinks_char [OF assms(1)])
  have mem: "?F (s, t) \<in> set (alluvialLinks g fd cs ct)"
    unfolding links using assms(2,3) by (simp add: image_iff) (metis fst_conv snd_conv)
  have uniq: "l' = ?F (s, t)"
    if "l' \<in> set (alluvialLinks g fd cs ct)" "source l' = nodeId cs s" "target l' = nodeId ct t" for l'
  proof -
    from that(1) obtain p where "l' = ?F p" unfolding links by auto
    moreover from this that(2,3) have "fst p = s" "snd p = t"
      by (simp_all add: finalLink_def nodeId_inj)
    ultimately show ?thesis by simp
  qed
  show ?thesis
  proof (rule bexI [OF _ mem])
    show "source (?F (s, t)) = nodeId cs s \<and> target (?F (s, t)) = nodeId ct t \<and>
      (\<forall>l'\<in>set (alluvialLinks g fd cs ct).
          source l' = nodeId cs s \<and> target l' = nodeId ct t \<longrightarrow> l' = ?F (s, t)) \<and>
      (matchCount g cs ct (validData fd cs ct) s t = 0 \<longrightarrow> isDummy (?F (s, t)) \<and> val (?F (s, t)) = 0.0001) \<and>
      (0 < matchCount g cs ct (validData fd cs ct) s t \<longrightarrow>
         \<not> isDummy (?F (s, t)) \<and> val (?F (s, t)) = of_nat (matchCount g cs ct (validData fd cs ct) s t))"
      using uniq by (simp add: finalLink_def)
  qed
qed

theorem dummy_link_weight_witness:
  "keysDistinct learning_style motivation
     (sortedSources (filteredData threeRows False) learning_style)
     (sortedTargets (filteredData threeRows False) motivation) \<and>
   ''visual'' \<in> set (sortedSources (filteredData threeRows False) learning_style) \<and>
   ''growth'' \<in> set (sortedTargets (filteredData threeRows False) motivation) \<and>
   ''impact'' \<in> set (sortedTargets (filteredData threeRows False) motivation) \<and>
   matchCount yearsLabel learning_style motivation
     (validData (filteredData threeRows False) learning_style motivation) ''visual'' ''growth'' = 0 \<and>
   0 < matchCount yearsLabel learning_style motivation
     (validData (filteredData threeRows False) learning_style motivation) ''visual'' ''impact'' \<and>
   (\<exists>l\<in>set (alluvialLinks yearsLabel (filteredData threeRows False) learning_style motivation).
      source l = nodeId learning_style ''visual'' \<and> target l = nodeId motivation ''growth'' \<and>
      isDummy l \<and> val l = 0.0001) \<and>
   (\<exists>l\<in>set (alluvialLinks yearsLabel (filteredData threeRows False) learning_style motivation).
      source l = nodeId learning_style ''visual'' \<and> target l = nodeId motivation ''impact'' \<and>
      \<not> isDummy l \<and> val l = 1)"
proof -
  let ?fd = "filteredData threeRows False"
  have kd: "keysDistinct learning_style motivation
     (sortedSources ?fd learning_style) (sortedTargets ?fd motivation)" by code_simp
  have s: "''visual'' \<in> set (sortedSources ?fd learning_style)" by code_simp
  have t0: "''growth'' \<in> set (sortedTargets ?fd motivation)" by code_simp
  have t1: "''impact'' \<in> set (sortedTargets ?fd motivation)" by code_simp
  have n0: "matchCount yearsLabel learning_style motivation
     (validData ?fd learning_style motivation) ''visual'' ''growth'' = 0" by code_simp
  have n1: "matchCount yearsLabel learning_style motivation
     (validData ?fd learning_style motivation) ''visual'' ''impact'' = 1" by code_simp
  from dummy_link_weight [OF kd s t0, of yearsLabel] n0
  have a: "\<exists>l\<in>set (alluvialLinks yearsLabel ?fd learning_style motivation).
      source l = nodeId learning_style ''visual'' \<and> target l = nodeId motivation ''growth'' \<and>
      isDummy l \<and> val l = 0.0001" by auto
  from dummy_link_weight [OF kd s t1, of yearsLabel] n1
  have b: "\<exists>l\<in>set (alluvialLinks yearsLabel ?fd learning_style motivation).
      source l = nodeId learning_style ''visual'' \<and> target l = nodeId motivation ''impact'' \<and>
      \<not> isDummy l \<and> val l = 1" by auto
  from kd s t0 t1 n0 n1 a b show ?thesis by simp
qed

text \<open>
  The claim as it is written fails twice.  A row with a null years value makes the node
  0-5 and has the values 0-5 and visual, but it is not valid: the link of that pair is a
  dummy of weight 0.0001 although one row matches it.  And of two rows whose label pairs
  share a map key, both are counted in one link: the pair of the second row has a link
  of weight 2 for one matching row, and the pair of the first row has no link.
\<close>

theorem dummy_link_weight_counterexample:
  "sortedSources (filteredData nullYearsRows False) years_at_medtronic = [''0-5''] \<and>
   sortedTargets (filteredData nullYearsRows False) learning_style = [''visual''] \<and>
   matchCount yearsLabel years_at_medtronic learning_style
     (filteredData nullYearsRows False) ''0-5'' ''visual'' = 1 \<and>
   alluvialLinks yearsLabel (filteredData nullYearsRows False) years_at_medtronic learning_style =
     [\<lparr>source = ''years_at_medtronic:0-5'', target = ''learning_style:visual'',
       val = 0.0001, isDummy = True\<rparr>] \<and>
   sortedSources (filteredData collidingRows False) learning_style =
     [''a'', ''a'' @ arrow @ ''motivation:b''] \<and>
   sortedTargets (filteredData collidingRows False) motivation =
     [''b'' @ arrow @ ''motivation:c'', ''c''] \<and>
   matchCount yearsLabel learning_style motivation
     (filteredData collidingRows False) (''a'' @ arrow @ ''motivation:b'') ''c'' = 1 \<and>
   matchCount yearsLabel learning_style motivation
     (filteredData collidingRows False) ''a'' (''b'' @ arrow @ ''motivation:c'') = 1 \<and>
   alluvialLinks yearsLabel (filteredData collidingRows False) learning_style motivation =
     [\<lparr>source = ''learning_style:a'' @ arrow @ ''motivation:b'', target = ''motivation:c'',
       val = 2, isDummy = False\<rparr>,
      \<lparr>source = ''learning_style:a'', target = ''motivation:c'', val = 0.0001, isDummy = True\<rparr>,
      \<lparr>source = ''learning_style:a'' @ arrow @ ''motivation:b'',
       target = ''motivation:b'' @ arrow @ ''motivation:c'', val = 0.0001, isDummy = True\<rparr>]"
proof -
  have a: "sortedSources (filteredData nullYearsRows False) years_at_medtronic = [''0-5'']"
    by code_simp
  have b: "sortedTargets (filteredData nullYearsRows False) learning_style = [''visual'']"
    by code_simp
  have c: "matchCount yearsLabel years_at_medtronic learning_style
     (filteredData nullYearsRows False) ''0-5'' ''visual'' = 1" by code_simp
  have d: "alluvialLinks yearsLabel (filteredData nullYearsRows False) years_at_medtronic learning_style =
     [\<lparr>source = ''years_at_medtronic:0-5'', target = ''learning_style:visual'',
       val = 0.0001, isDummy = True\<rparr>]" by code_simp
  have e: "sortedSources (filteredData collidingRows False) learning_style =
     [''a'', ''a'' @ arrow @ ''motivation:b'']" by code_simp
  have f: "sortedTargets (filteredData collidingRows False) motivation =
     [''b'' @ arrow @ ''motivation:c'', ''c'']" by code_simp
  have g: "matchCount yearsLabel learning_style motivation
     (filteredData collidingRows False) (''a'' @ arrow @ ''motivation:b'') ''c'' = 1" by code_simp
  have h: "matchCount yearsLabel learning_style motivation
     (filteredData collidingRows False) ''a'' (''b'' @ arrow @ ''motivation:c'') = 1" by code_simp
  have i: "alluvialLinks yearsLabel (filteredData collidingRows False) learning_style motivation =
     [\<lparr>source = ''learning_style:a'' @ arrow @ ''motivation:b'', target = ''motivation:c'',
       val = 2, isDummy = False\<rparr>,
      \<lparr>source = ''learning_style:a'', target = ''motivation:c'', val = 0.0001, isDummy = True\<rparr>,
      \<lparr>source = ''learning_style:a'' @ arrow @ ''motivation:b'',
       target = ''motivation:b'' @ arrow @ ''motivation:c'', val = 0.0001, isDummy = True\<rparr>]"
    by code_simp
  show ?thesis by (intro conjI) (fact a b c d e f g h i)+
qed

section \<open>Self-pair guard\<close>

text \<open>
  C6, at a rotation table that holds a self-pair.  With the modes (years, learning style),
  (motivation, motivation), (shaped_by, motivation) and the rotation at the first, the
  interval callback returns at the self-pair without advancing the mode index, so every
  later tick meets the same self-pair: after any number of ticks the rotation is where
  it started and the valid third mode is never shown.
\<close>

theorem rotation_stalls_at_self_pair:
  "rotationTicks n selfPairModes initialRotation = Inr initialRotation \<and>
   selfPairModes ! 2 = (''shaped_by'', ''motivation'') \<and>
   cyclingInterval selfPairModes initialRotation = Inr initialRotation"
proof -
  have "rotationTicks n selfPairModes initialRotation = Inr initialRotation"
    by (induction n) (simp_all add: self_pair_tick)
  moreover have "selfPairModes ! 2 = (''shaped_by'', ''motivation'')" by code_simp
  moreover have "cyclingInterval selfPairModes initialRotation = Inr initialRotation" by code_simp
  ultimately show ?thesis by simp
qed

section \<open>Cancellation\<close>

text \<open>
  C8, at a stop followed by a restart.  In a run over two source nodes the switch to the
  next target field has fired and queued its restart under handle 3, which the ref does
  not track.  Stopping the sequencer leaves that timer in the queue; fired while the
  sequencer is stopped it does nothing, but fired after the sequencer has been started
  again it calls \<^verbatim>\<open>animate\<close>: the cycle count goes from 1 to 2, the tracked handle from 4
  to 5, and two step timers are pending at once.  The lemmas on untracked timers above
  say the same of every run: a switch queues a restart that the ref does not track,
  stopping and starting leave it pending, and fired in a running sequencer it calls
  \<^verbatim>\<open>animate\<close>.
\<close>

theorem stale_timer_after_restart:
  "map fst (pending afterNextTarget) = [3] \<and>
   timer (anim afterNextTarget) = Some 2 \<and>
   map fst (pending (stopSequencer afterNextTarget)) = [3] \<and>
   fire 3 (stopSequencer afterNextTarget) =
     (stopSequencer afterNextTarget)\<lparr>pending := []\<rparr> \<and>
   map fst (pending (startSequencer twoSources (stopSequencer afterNextTarget))) = [3, 4] \<and>
   anim (startSequencer twoSources (stopSequencer afterNextTarget)) =
     \<lparr>timer = Some 4, running = True, currentSourceIndex = 0, currentTargetIndex = 0,
      isPaused = False, resumeFrom = None, cycleCount = 1\<rparr> \<and>
   anim (fire 3 (startSequencer twoSources (stopSequencer afterNextTarget))) =
     \<lparr>timer = Some 5, running = True, currentSourceIndex = 0, currentTargetIndex = 0,
      isPaused = False, resumeFrom = None, cycleCount = 2\<rparr> \<and>
   pending (fire 3 (startSequencer twoSources (stopSequencer afterNextTarget))) =
     [(4, StepTimer twoSources), (5, StepTimer twoSources)]"
  by code_simp

section \<open>Sequencer monotonicity\<close>

text \<open>
  C9, at a switch of the source field.  The component runs on the five rows at speed
  3000, where a step timer waits 1200 ms and the restart after a switch of the source
  field 2250 ms.  The years field has two source nodes; after its four target fields the
  eleventh timer switches the source field to the learning style, which has three, and
  queues the restart 12 of the old closure without storing its handle.  The effect runs
  again and highlights 0; timer 13 fires 1200 ms after the switch and highlights 1; the
  next step, timer 14, is due at 2400 ms, but the restart 12 fires at 2250 ms.  It calls
  \<^verbatim>\<open>animate\<close> of the old closure, for which index 1 is the last: index 1 is highlighted
  again, timer 14 is cleared and the switch of the target field is queued.  The target
  field changes and the highlights start over at 0, 1 under the old closure: index 2 of
  the three source nodes is never highlighted.  Each line below is the source field, the
  target field, the highlighted index and the pending handles after an event.
\<close>

theorem stale_restart_skips_highlight:
  "closureSources (closureOf switchRows years_at_medtronic) = [''0-5'', ''6-10''] \<and>
   closureSources (closureOf switchRows learning_style) = [''auditory'', ''kinesthetic'', ''visual''] \<and>
   stepDuration (animationDurations 3000 False) + pauseDuration (animationDurations 3000 False) = 1200 \<and>
   categoryPauseDuration (animationDurations 3000 False) * 1.5 = 2250 \<and>
   map fst (pending mounted) = [1] \<and>
   map (\<lambda>st. (currentSource st, currentTarget st, hoveredSourceIndex st, map fst (pending st)))
     (history switchRun mounted) =
     [(''years_at_medtronic'', JStr ''learning_style'', Some 1, [2]),
      (''years_at_medtronic'', JStr ''shaped_by'', Some 1, [3]),
      (''years_at_medtronic'', JStr ''shaped_by'', Some 0, [4]),
      (''years_at_medtronic'', JStr ''shaped_by'', Some 1, [5]),
      (''years_at_medtronic'', JStr ''peak_performance'', Some 1, [6]),
      (''years_at_medtronic'', JStr ''peak_performance'', Some 0, [7]),
      (''years_at_medtronic'', JStr ''peak_performance'', Some 1, [8]),
      (''years_at_medtronic'', JStr ''motivation'', Some 1, [9]),
      (''years_at_medtronic'', JStr ''motivation'', Some 0, [10]),
      (''years_at_medtronic'', JStr ''motivation'', Some 1, [11]),
      (''learning_style'', JStr ''years_at_medtronic'', Some 1, [12]),
      (''learning_style'', JStr ''years_at_medtronic'', Some 0, [12, 13]),
      (''learning_style'', JStr ''years_at_medtronic'', Some 1, [12, 14]),
      (''learning_style'', JStr ''years_at_medtronic'', Some 1, [15]),
      (''learning_style'', JStr ''shaped_by'', Some 1, [16]),
      (''learning_style'', JStr ''shaped_by'', Some 0, [17]),
      (''learning_style'', JStr ''shaped_by'', Some 1, [18])]"
proof -
  have a: "closureSources (closureOf switchRows years_at_medtronic) = [''0-5'', ''6-10'']"
    by code_simp
  have b: "closureSources (closureOf switchRows learning_style) = [''auditory'', ''kinesthetic'', ''visual'']"
    by code_simp
  have c: "stepDuration (animationDurations 3000 False) + pauseDuration (animationDurations 3000 False) = 1200"
    by (simp add: animationDurations_def)
  have d: "categoryPauseDuration (animationDurations 3000 False) * 1.5 = 2250"
    by (simp add: animationDurations_def)
  have e: "map fst (pending mounted) = [1]" by code_simp
  have f: "map (\<lambda>st. (currentSource st, currentTarget st, hoveredSourceIndex st, map fst (pending st)))
     (history switchRun mounted) =
     [(''years_at_medtronic'', JStr ''learning_style'', Some 1, [2]),
      (''years_at_medtronic'', JStr ''shaped_by'', Some 1, [3]),
      (''years_at_medtronic'', JStr ''shaped_by'', Some 0, [4]),
      (''years_at_medtronic'', JStr ''shaped_by'', Some 1, [5]),
      (''years_at_medtronic'', JStr ''peak_performance'', Some 1, [6]),
      (''years_at_medtronic'', JStr ''peak_performance'', Some 0, [7]),
      (''years_at_medtronic'', JStr ''peak_performance'', Some 1, [8]),
      (''years_at_medtronic'', JStr ''motivation'', Some 1, [9]),
      (''years_at_medtronic'', JStr ''motivation'', Some 0, [10]),
      (''years_at_medtronic'', JStr ''motivation'', Some 1, [11]),
      (''learning_style'', JStr ''years_at_medtronic'', Some 1, [12]),
      (''learning_style'', JStr ''years_at_medtronic'', Some 0, [12, 13]),
      (''learning_style'', JStr ''years_at_medtronic'', Some 1, [12, 14]),
      (''learning_style'', JStr ''years_at_medtronic'', Some 1, [15]),
      (''learning_style'', JStr ''shaped_by'', Some 1, [16]),
      (''learning_style'', JStr ''shaped_by'', Some 0, [17]),
      (''learning_style'', JStr ''shaped_by'', Some 1, [18])]"
    by code_simp
  show ?thesis by (intro conjI) (fact a b c d e f)+
qed

end
